theory Spec2Isabelle
  imports Complex_Main "HOL-Library.Word" "HOL-Library.Log_Nat"
begin

section \<open>Passkey smart-wallet service: a shallow embedding\<close>

text \<open>
  The definitions below follow the TypeScript of the wallet service
  (\<^verbatim>\<open>StellarSmartWalletService\<close>) and of the credential-id helpers in
  \<^verbatim>\<open>utils.ts\<close>. Every \<^verbatim>\<open>throw\<close> of the source, and every exception a
  platform call raises on the inputs considered, is a value of type \<open>error\<close>;
  a function that can throw returns \<open>error + 'a\<close>, with \<open>Inl\<close> the exception.
  Calls to \<^verbatim>\<open>console\<close> and the branches guarded by \<^verbatim>\<open>DemoConfig.debug\<close> only log and
  are left out.
\<close>

subsection \<open>Values and errors\<close>

type_synonym byte = "8 word"

text \<open>
  The values a decoded COSE map holds in this model: JavaScript numbers with an
  integer value and byte strings (\<^verbatim>\<open>Uint8Array\<close>). A label the map does not
  hold reads as \<^verbatim>\<open>undefined\<close>, which is \<open>None\<close>.
\<close>

datatype cose_value = CNum int | CBytes "byte list"

type_synonym cose_map = "int \<rightharpoonup> cose_value"

text \<open>What \<^verbatim>\<open>cbor.decodeFirstSync\<close> hands back: a \<^verbatim>\<open>Map\<close>, or a value that is none.\<close>

datatype decoded = DMap cose_map | DNotMap

text \<open>
  The platform raises \<^verbatim>\<open>RangeError\<close> in three places: \<^verbatim>\<open>DataView.getUint16\<close> with an
  offset outside the view, \<^verbatim>\<open>TypedArray.set\<close> with a source that does not fit, and
  \<^verbatim>\<open>BigInt\<close> of a number that is not an integer.
\<close>

datatype range_site = DataViewOffset | TypedArraySet | BigIntConversion

datatype error =
    RangeError range_site
  | CoseKeyNotFound
    \<comment> \<open>\<^verbatim>\<open>Error("COSE key not found in authData")\<close>\<close>
  | CborDecodeError
    \<comment> \<open>whatever \<^verbatim>\<open>cbor.decodeFirstSync\<close> throws, rethrown\<close>
  | InvalidCoseKeyStructure
    \<comment> \<open>\<^verbatim>\<open>Error("Invalid COSE key structure")\<close>\<close>
  | MalformedES256
    \<comment> \<open>\<^verbatim>\<open>Error("Malformed ES256 COSE key: missing x or y")\<close>\<close>
  | MalformedRS256
    \<comment> \<open>\<^verbatim>\<open>Error("Malformed RS256 COSE key: missing n or e")\<close>\<close>
  | UnsupportedCoseKey "cose_value option" "cose_value option"
    \<comment> \<open>\<^verbatim>\<open>Error(`Unsupported COSE key: kty=${kty}, alg=${alg}. ...`)\<close>\<close>
  | ContractIdRequired
    \<comment> \<open>\<^verbatim>\<open>Error('Contract ID is required')\<close>\<close>
  | AmountRequired
    \<comment> \<open>\<^verbatim>\<open>Error('Amount to transfer is required')\<close>\<close>
  | SimulationFailed
    \<comment> \<open>\<^verbatim>\<open>Error('Simulation failed')\<close>\<close>
  | InvalidCharacterError
    \<comment> \<open>the \<^verbatim>\<open>DOMException\<close> of \<^verbatim>\<open>atob\<close> on a string that is not base64\<close>
  | CollaboratorError string
    \<comment> \<open>an exception raised inside a call to the SDK or to the network, with its message\<close>

subsection \<open>Platform operations on typed arrays\<close>

text \<open>\<^verbatim>\<open>!v\<close> is false for every object, also for an empty \<^verbatim>\<open>Uint8Array\<close>.\<close>

fun truthy :: "cose_value option \<Rightarrow> bool" where
  "truthy None = False"
| "truthy (Some (CNum n)) = (n \<noteq> 0)"
| "truthy (Some (CBytes bs)) = True"

text \<open>\<^verbatim>\<open>v.length\<close>: a number on a typed array, \<^verbatim>\<open>undefined\<close> (\<open>None\<close>) on a number.\<close>

fun js_length :: "cose_value \<Rightarrow> nat option" where
  "js_length (CBytes bs) = Some (length bs)"
| "js_length (CNum n) = None"

text \<open>\<^verbatim>\<open>a + b\<close> on lengths: with \<^verbatim>\<open>undefined\<close> on either side the sum is \<^verbatim>\<open>NaN\<close> (\<open>None\<close>).\<close>

fun js_add :: "nat option \<Rightarrow> nat option \<Rightarrow> nat option" where
  "js_add (Some a) (Some b) = Some (a + b)"
| "js_add _ _ = None"

text \<open>\<^verbatim>\<open>ToIntegerOrInfinity\<close> on a length or offset: \<^verbatim>\<open>NaN\<close> and \<^verbatim>\<open>undefined\<close> become 0.\<close>

fun to_index :: "nat option \<Rightarrow> nat" where
  "to_index None = 0"
| "to_index (Some k) = k"

text \<open>\<^verbatim>\<open>new Uint8Array(n)\<close>: \<open>n\<close> zero bytes.\<close>

definition new_Uint8Array :: "nat option \<Rightarrow> byte list" where
  "new_Uint8Array n = replicate (to_index n) 0"

text \<open>\<^verbatim>\<open>a[i] = v\<close> on a typed array: a write out of range is dropped.\<close>

definition index_assign :: "byte list \<Rightarrow> nat \<Rightarrow> byte \<Rightarrow> byte list" where
  "index_assign a i v = (if i < length a then a[i := v] else a)"

text \<open>
  \<^verbatim>\<open>target.set(source, offset)\<close>: the elements of an array-like source are copied to
  \<open>offset\<close> onwards; a number as source is an array-like of length 0. It throws
  \<^verbatim>\<open>RangeError\<close> when the source does not fit.
\<close>

fun source_elements :: "cose_value \<Rightarrow> byte list" where
  "source_elements (CBytes bs) = bs"
| "source_elements (CNum n) = []"

definition typed_set :: "byte list \<Rightarrow> cose_value \<Rightarrow> nat option \<Rightarrow> error + byte list" where
  "typed_set target source offset =
     (let src = source_elements source; off = to_index offset
      in if length src + off > length target then Inl (RangeError TypedArraySet)
         else Inr (take off target @ src @ drop (off + length src) target))"

text \<open>
  \<^verbatim>\<open>view.getUint16(offset)\<close>: two bytes, big-endian; \<^verbatim>\<open>RangeError\<close> when they are
  not both inside the buffer.
\<close>

definition getUint16 :: "byte list \<Rightarrow> nat \<Rightarrow> error + nat" where
  "getUint16 buf offset =
     (if offset + 2 > length buf then Inl (RangeError DataViewOffset)
      else Inr (unat (buf ! offset) * 256 + unat (buf ! (offset + 1))))"

subsection \<open>Key extraction\<close>

text \<open>
  The dispatch on key type and algorithm of \<^verbatim>\<open>extractRawPublicKeyFromAuthData\<close>, from
  \<^verbatim>\<open>const kty = coseKey.get(1)\<close> to the end of the function.
\<close>

definition coseKeyToRawKey :: "cose_map \<Rightarrow> error + byte list" where
  "coseKeyToRawKey coseKey =
     (let kty = coseKey 1; alg = coseKey 3 in
      if kty = Some (CNum 2) \<and> alg = Some (CNum (- 7)) then
        (let x = coseKey (- 2); y = coseKey (- 3) in
         if \<not> truthy x \<or> \<not> truthy y then Inl MalformedES256
         else
           (let xv = the x; yv = the y;
                rawKey = new_Uint8Array (js_add (js_add (Some 1) (js_length xv)) (js_length yv));
                rawKey = index_assign rawKey 0 0x04
            in case typed_set rawKey xv (Some 1) of
                 Inl err \<Rightarrow> Inl err
               | Inr rawKey \<Rightarrow> typed_set rawKey yv (js_add (Some 1) (js_length xv))))
      else if kty = Some (CNum 3) \<and> alg = Some (CNum (- 257)) then
        (let n = coseKey (- 1); e = coseKey (- 2) in
         if \<not> truthy n \<or> \<not> truthy e then Inl MalformedRS256
         else
           (let nv = the n; ev = the e;
                rawKey = new_Uint8Array (js_add (js_length nv) (js_length ev))
            in case typed_set rawKey nv (Some 0) of
                 Inl err \<Rightarrow> Inl err
               | Inr rawKey \<Rightarrow> typed_set rawKey ev (js_length nv)))
      else Inl (UnsupportedCoseKey kty alg))"

text \<open>
  The whole of \<^verbatim>\<open>extractRawPublicKeyFromAuthData\<close>. The CBOR decoder is a library
  outside the repository and is a parameter: \<open>None\<close> when it throws.
\<close>

definition extractRawPublicKeyFromAuthData ::
    "(byte list \<Rightarrow> decoded option) \<Rightarrow> byte list \<Rightarrow> error + byte list" where
  "extractRawPublicKeyFromAuthData decodeFirstSync authDataBytes =
     (let RP_ID_HASH_LENGTH = 32; FLAGS_LENGTH = 1; SIGNATURE_COUNTER_LENGTH = 4;
          AAGUID_LENGTH = 16; CRED_ID_LENGTH_BYTES = 2;
          slicedBuffer = authDataBytes;
          offset = RP_ID_HASH_LENGTH + FLAGS_LENGTH + SIGNATURE_COUNTER_LENGTH + AAGUID_LENGTH
      in case getUint16 slicedBuffer offset of
           Inl err \<Rightarrow> Inl err
         | Inr credIdLen \<Rightarrow>
             (let offset = offset + CRED_ID_LENGTH_BYTES + credIdLen;
                  coseKeyBytes = drop offset slicedBuffer
              in if length coseKeyBytes = 0 then Inl CoseKeyNotFound
                 else case decodeFirstSync coseKeyBytes of
                        None \<Rightarrow> Inl CborDecodeError
                      | Some DNotMap \<Rightarrow> Inl InvalidCoseKeyStructure
                      | Some (DMap coseKey) \<Rightarrow> coseKeyToRawKey coseKey))"

text \<open>The credential-id length the buffer declares, at bytes 53 and 54.\<close>

definition declaredCredIdLen :: "byte list \<Rightarrow> nat" where
  "declaredCredIdLen buf = unat (buf ! 53) * 256 + unat (buf ! 54)"

subsection \<open>JavaScript numbers\<close>

text \<open>
  A \<^verbatim>\<open>number\<close> is an IEEE 754 binary64 value: a finite value is the rational it
  denotes, and the two zeros are one value (nothing below tells them apart).
  \<open>fl\<close> rounds a rational to the nearest binary64 value, ties to even: 53 bits of
  significand, exponents from -1022 to 1023, gradual underflow, overflow to infinity.
\<close>

datatype jsnum = NaN | PosInf | NegInf | Fin rat

definition pow2 :: "int \<Rightarrow> rat" where
  "pow2 k = (if 0 \<le> k then 2 ^ nat k else 1 / 2 ^ nat (- k))"

definition round_half_even :: "rat \<Rightarrow> int" where
  "round_half_even q =
     (let f = \<lfloor>q\<rfloor>; d = q - of_int f
      in if d < 1 / 2 then f else if 1 / 2 < d then f + 1 else if even f then f else f + 1)"

text \<open>The exponent \<open>e\<close> with \<open>2 ^ e \<le> |q| < 2 ^ (e + 1)\<close>, for \<open>q\<close> other than 0.\<close>

definition binade :: "rat \<Rightarrow> int" where
  "binade q =
     (let (n, d) = quotient_of \<bar>q\<bar>; k = bitlen n - bitlen d
      in if pow2 k \<le> \<bar>q\<bar> then k else k - 1)"

definition fl :: "rat \<Rightarrow> jsnum" where
  "fl q =
     (if q = 0 then Fin 0
      else
        (let e = max (binade q) (- 1022);
             ulp = pow2 (e - 52);
             r = of_int (round_half_even (\<bar>q\<bar> / ulp)) * ulp
         in if pow2 1024 \<le> r then (if 0 < q then PosInf else NegInf)
            else Fin (sgn q * r)))"

text \<open>\<^verbatim>\<open>a * b\<close> on numbers.\<close>

fun js_mul :: "jsnum \<Rightarrow> jsnum \<Rightarrow> jsnum" where
  "js_mul (Fin a) (Fin b) = fl (a * b)"
| "js_mul NaN _ = NaN"
| "js_mul _ NaN = NaN"
| "js_mul PosInf (Fin b) = (if b = 0 then NaN else if 0 < b then PosInf else NegInf)"
| "js_mul NegInf (Fin b) = (if b = 0 then NaN else if 0 < b then NegInf else PosInf)"
| "js_mul (Fin a) PosInf = (if a = 0 then NaN else if 0 < a then PosInf else NegInf)"
| "js_mul (Fin a) NegInf = (if a = 0 then NaN else if 0 < a then NegInf else PosInf)"
| "js_mul PosInf PosInf = PosInf"
| "js_mul PosInf NegInf = NegInf"
| "js_mul NegInf PosInf = NegInf"
| "js_mul NegInf NegInf = PosInf"

text \<open>\<^verbatim>\<open>Math.round\<close>: the integer nearest to the argument, a tie going up.\<close>

fun Math_round :: "jsnum \<Rightarrow> jsnum" where
  "Math_round (Fin q) = Fin (of_int \<lfloor>q + 1 / 2\<rfloor>)"
| "Math_round x = x"

text \<open>\<^verbatim>\<open>BigInt(x)\<close> of a number: \<^verbatim>\<open>RangeError\<close> unless the number is an integer.\<close>

fun BigInt :: "jsnum \<Rightarrow> error + int" where
  "BigInt (Fin q) = (if of_int \<lfloor>q\<rfloor> = q then Inr \<lfloor>q\<rfloor> else Inl (RangeError BigIntConversion))"
| "BigInt x = Inl (RangeError BigIntConversion)"

subsection \<open>Strings of digits\<close>

definition digit_char :: "nat \<Rightarrow> char" where
  "digit_char d = ''0123456789'' ! d"

text \<open>The decimal digits of a natural number, without leading zeros.\<close>

fun digits :: "nat \<Rightarrow> string" where
  "digits n = (if n < 10 then [digit_char n] else digits (n div 10) @ [digit_char (n mod 10)])"

declare digits.simps [simp del]

text \<open>\<^verbatim>\<open>b.toString()\<close> and \<^verbatim>\<open>`${b}`\<close> of a \<^verbatim>\<open>bigint\<close>.\<close>

definition bigint_toString :: "int \<Rightarrow> string" where
  "bigint_toString b = (if b < 0 then CHR ''-'' # digits (nat (- b)) else digits (nat b))"

text \<open>\<^verbatim>\<open>a / b\<close> and \<^verbatim>\<open>a % b\<close> on \<^verbatim>\<open>bigint\<close>: the quotient is truncated towards zero.\<close>

definition bigint_div :: "int \<Rightarrow> int \<Rightarrow> int" where
  "bigint_div a b = sgn a * sgn b * (\<bar>a\<bar> div \<bar>b\<bar>)"

definition bigint_rem :: "int \<Rightarrow> int \<Rightarrow> int" where
  "bigint_rem a b = a - b * bigint_div a b"

text \<open>\<^verbatim>\<open>s.padStart(n, '0')\<close> and \<^verbatim>\<open>s.replace(/0+$/, '')\<close>.\<close>

definition padStart :: "nat \<Rightarrow> char \<Rightarrow> string \<Rightarrow> string" where
  "padStart n c s = replicate (n - length s) c @ s"

definition strip_trailing_zeros :: "string \<Rightarrow> string" where
  "strip_trailing_zeros s = rev (dropWhile (\<lambda>c. c = CHR ''0'') (rev s))"

subsection \<open>Unit conversion\<close>

datatype stroops_arg = BigIntArg int | NumberArg jsnum

definition stroopsToXlm :: "stroops_arg \<Rightarrow> error + string" where
  "stroopsToXlm stroops =
     (case (case stroops of BigIntArg b \<Rightarrow> Inr b | NumberArg x \<Rightarrow> BigInt x) of
        Inl err \<Rightarrow> Inl err
      | Inr stroopsBigInt \<Rightarrow>
          (let whole = bigint_div stroopsBigInt 10000000;
               fraction = bigint_rem stroopsBigInt 10000000;
               fractionStr = strip_trailing_zeros (padStart 7 CHR ''0'' (bigint_toString fraction))
           in Inr (if fractionStr \<noteq> [] then bigint_toString whole @ ''.'' @ fractionStr
                   else bigint_toString whole)))"

definition xlmToStroops :: "jsnum \<Rightarrow> jsnum" where
  "xlmToStroops xlm = Math_round (js_mul xlm (fl 10000000))"

text \<open>
  The value a decimal string denotes: digits, then optionally a point and more digits.
  \<open>None\<close> for any other string.
\<close>

definition digit_val :: "char \<Rightarrow> nat" where
  "digit_val c = of_char c - 48"

definition is_digit :: "char \<Rightarrow> bool" where
  "is_digit c = (48 \<le> (of_char c :: nat) \<and> (of_char c :: nat) \<le> 57)"

definition nat_of_digits :: "string \<Rightarrow> nat" where
  "nat_of_digits s = foldl (\<lambda>a c. 10 * a + digit_val c) 0 s"

definition dec_value :: "string \<Rightarrow> rat option" where
  "dec_value s =
     (let w = takeWhile (\<lambda>c. c \<noteq> CHR ''.'') s;
          rest = dropWhile (\<lambda>c. c \<noteq> CHR ''.'') s;
          f = drop 1 rest
      in if w = [] \<or> \<not> list_all is_digit w \<or> \<not> list_all is_digit f \<or> (rest \<noteq> [] \<and> f = [])
         then None
         else Some (of_nat (nat_of_digits w) + of_nat (nat_of_digits f) / 10 ^ length f))"

subsection \<open>The wallet service and its collaborators\<close>

record keypair =
  kp_publicKey :: string
  kp_secret :: string

record WalletServiceConfig =
  contractWasmHash :: string
  submitterSeed :: string
  horizonUrl :: string
  rpcUrl :: string
  nativeContractId :: string
  networkPassphrase :: string

text \<open>The fields of a \<^verbatim>\<open>StellarSmartWalletService\<close> instance.\<close>

record StellarSmartWalletService = WalletServiceConfig +
  submitterKeypair :: keypair

text \<open>
  The constructor copies the configuration and derives the submitter's key pair from the
  seed with \<^verbatim>\<open>StellarSdk.Keypair.fromSecret\<close>, which is a parameter.
\<close>

definition new_StellarSmartWalletService ::
    "(string \<Rightarrow> error + keypair) \<Rightarrow> WalletServiceConfig \<Rightarrow> error + StellarSmartWalletService" where
  "new_StellarSmartWalletService fromSecret config =
     (case fromSecret (submitterSeed config) of
        Inl err \<Rightarrow> Inl err
      | Inr kp \<Rightarrow> Inr (WalletServiceConfig.extend config
                         (StellarSmartWalletService.fields kp)))"

subsection \<open>Deriving the contract identifier\<close>

text \<open>
  The structured preimage the source builds, and the functions of the Stellar SDK it
  calls: the hash, the parsing of an address, the XDR serialisation of the preimage
  and the contract encoding of a hash. They belong to a library outside the
  repository and are parameters.
\<close>

datatype sc_address = ScAddress "byte list"

datatype contract_id_preimage =
  ContractIdPreimageFromAddress (address: sc_address) (salt: "byte list")

datatype hash_id_preimage =
  EnvelopeTypeContractId (networkId: "byte list") (contractIdPreimage: contract_id_preimage)

record stellar_sdk =
  sdk_hash :: "byte list \<Rightarrow> byte list"
  sdk_Address_fromString :: "string \<Rightarrow> error + sc_address"
  sdk_toXDR :: "hash_id_preimage \<Rightarrow> byte list"
  sdk_encodeContract :: "byte list \<Rightarrow> string"

text \<open>
  \<^verbatim>\<open>Buffer.from(s)\<close>: the UTF-8 bytes of a string whose code units are below 256.
\<close>

definition Buffer_from :: "string \<Rightarrow> byte list" where
  "Buffer_from s =
     concat (map (\<lambda>c. let n = of_char c :: nat
                       in if n < 128 then [of_nat n]
                          else [of_nat (192 + n div 64), of_nat (128 + n mod 64)]) s)"

definition deriveContractIdFromPasskeyId ::
    "stellar_sdk \<Rightarrow> ('a StellarSmartWalletService_scheme) \<Rightarrow> string \<Rightarrow> error + string" where
  "deriveContractIdFromPasskeyId sdk this base64CredentialId =
     (let salt = sdk_hash sdk (Buffer_from base64CredentialId)
      in case sdk_Address_fromString sdk (kp_publicKey (submitterKeypair this)) of
           Inl err \<Rightarrow> Inl err
         | Inr submitterAddress \<Rightarrow>
             (let networkId = sdk_hash sdk (Buffer_from (networkPassphrase this));
                  contractIdPreimage =
                    EnvelopeTypeContractId networkId
                      (ContractIdPreimageFromAddress submitterAddress salt);
                  contractHash = sdk_hash sdk (sdk_toXDR sdk contractIdPreimage);
                  contractId = sdk_encodeContract sdk contractHash
              in Inr contractId))"

subsection \<open>The transfer\<close>

text \<open>
  What \<^verbatim>\<open>addFunds\<close> builds and what it receives. The operation of the assembled
  transfer (\<^verbatim>\<open>sacTx.built.operations[0]\<close>) carries the contract, the function name, the
  arguments and the authorisation entries.
\<close>

record invoke_contract =
  ic_contract :: string
  ic_functionName :: string
  ic_args :: "string list"
  ic_auth :: "string list"

record account =
  acc_id :: string
  acc_sequence :: int

record soroban_data =
  sd_resourceFee :: int

record transaction =
  tx_source :: account
  tx_fee :: string
  tx_networkPassphrase :: string
  tx_operation :: invoke_contract
  tx_timeout :: nat
  tx_sorobanData :: "soroban_data option"
  tx_signatures :: "string list"

record fee_bump_transaction =
  fb_feeSource :: string
  fb_baseFee :: string
  fb_inner :: transaction
  fb_networkPassphrase :: string
  fb_signatures :: "string list"

text \<open>
  The answer of the simulation endpoint: \<open>transactionData\<close> is \<open>None\<close> when the
  response object has no key \<^verbatim>\<open>transactionData\<close>.
\<close>

record simulation_response =
  transactionData :: "soroban_data option"

text \<open>
  The collaborators: Horizon (\<^verbatim>\<open>loadAccount\<close>), the asset contract client
  (\<^verbatim>\<open>transfer\<close>, \<^verbatim>\<open>signAuthEntries\<close>), the builder of fee-bump transactions, and the
  RPC server (\<^verbatim>\<open>simulateTransaction\<close>, \<^verbatim>\<open>sendTransaction\<close>). Each call returns or
  throws.
\<close>

record collaborators =
  loadAccount :: "string \<Rightarrow> error + account"
  sac_transfer :: "string \<Rightarrow> string \<Rightarrow> int \<Rightarrow> error + invoke_contract"
  signAuthEntries :: "string \<Rightarrow> invoke_contract \<Rightarrow> error + invoke_contract"
  buildFeeBumpTransaction ::
    "keypair \<Rightarrow> string \<Rightarrow> transaction \<Rightarrow> string \<Rightarrow> error + fee_bump_transaction"
  simulateTransaction :: "transaction \<Rightarrow> error + simulation_response"
  sendTransaction :: "fee_bump_transaction \<Rightarrow> error + string"

text \<open>The calls that reach the network, in the order they are made.\<close>

datatype event =
    EvLoadAccount string
  | EvTransfer string string int
  | EvSignAuthEntries
  | EvSimulateTransaction transaction
  | EvSendTransaction fee_bump_transaction

text \<open>\<^verbatim>\<open>tx.sign(keypair)\<close> adds the signature of the key pair.\<close>

definition tx_sign :: "keypair \<Rightarrow> transaction \<Rightarrow> transaction" where
  "tx_sign kp tx = tx\<lparr>tx_signatures := tx_signatures tx @ [kp_publicKey kp]\<rparr>"

definition fb_sign :: "keypair \<Rightarrow> fee_bump_transaction \<Rightarrow> fee_bump_transaction" where
  "fb_sign kp tx = tx\<lparr>fb_signatures := fb_signatures tx @ [kp_publicKey kp]\<rparr>"

text \<open>
  \<^verbatim>\<open>addFunds\<close>. The arguments are \<open>None\<close> when the caller passes \<^verbatim>\<open>undefined\<close> or
  \<^verbatim>\<open>null\<close>. The result comes with the calls made; the \<^verbatim>\<open>catch\<close> block logs the
  error and throws it again.
\<close>

definition addFunds ::
    "collaborators \<Rightarrow> ('a StellarSmartWalletService_scheme) \<Rightarrow> string option \<Rightarrow> jsnum option
       \<Rightarrow> (error + string) \<times> event list" where
  "addFunds env this contractId amountToTransferXlm =
     (case contractId of
        None \<Rightarrow> (Inl ContractIdRequired, [])
      | Some contractId \<Rightarrow>
     (case amountToTransferXlm of
        None \<Rightarrow> (Inl AmountRequired, [])
      | Some amountToTransferXlm \<Rightarrow>
     (let amountToTransfer = xlmToStroops amountToTransferXlm;
          submitter = kp_publicKey (submitterKeypair this);
          trace = [EvLoadAccount submitter]
      in case loadAccount env submitter of
        Inl err \<Rightarrow> (Inl err, trace)
      | Inr submitterAccount \<Rightarrow>
     (case BigInt amountToTransfer of
        Inl err \<Rightarrow> (Inl err, trace)
      | Inr amount \<Rightarrow>
     (let trace = trace @ [EvTransfer submitter contractId amount]
      in case sac_transfer env submitter contractId amount of
        Inl err \<Rightarrow> (Inl err, trace)
      | Inr sacTx \<Rightarrow>
     (let trace = trace @ [EvSignAuthEntries]
      in case signAuthEntries env submitter sacTx of
        Inl err \<Rightarrow> (Inl err, trace)
      | Inr sorobanOperation \<Rightarrow>
     (let tmpTx = tx_sign (submitterKeypair this)
            \<lparr>tx_source = submitterAccount, tx_fee = ''0'',
             tx_networkPassphrase = networkPassphrase this,
             tx_operation = sorobanOperation, tx_timeout = 5 * 60,
             tx_sorobanData = None, tx_signatures = []\<rparr>;
          trace = trace @ [EvSimulateTransaction tmpTx]
      in case simulateTransaction env tmpTx of
        Inl err \<Rightarrow> (Inl err, trace)
      | Inr simulationRs \<Rightarrow>
     (case transactionData simulationRs of
        None \<Rightarrow> (Inl SimulationFailed, trace)
      | Some sorobanData \<Rightarrow>
     (let resourceFee = sd_resourceFee sorobanData;
          realTransaction = tx_sign (submitterKeypair this)
            (tmpTx\<lparr>tx_fee := bigint_toString resourceFee,
                   tx_sorobanData := Some sorobanData, tx_signatures := []\<rparr>)
      in case buildFeeBumpTransaction env (submitterKeypair this) (bigint_toString resourceFee)
                realTransaction (networkPassphrase this) of
        Inl err \<Rightarrow> (Inl err, trace)
      | Inr feeBumpTx \<Rightarrow>
     (let feeBumpTx = fb_sign (submitterKeypair this) feeBumpTx;
          trace = trace @ [EvSendTransaction feeBumpTx]
      in case sendTransaction env feeBumpTx of
        Inl err \<Rightarrow> (Inl err, trace)
      | Inr feeBumpTxResult \<Rightarrow> (Inr feeBumpTxResult, trace)))))))))))"

subsection \<open>Base64 and the credential-id helpers\<close>

text \<open>
  \<^verbatim>\<open>btoa\<close> and \<^verbatim>\<open>atob\<close> are functions of the platform. \<^verbatim>\<open>btoa\<close> is the base64
  encoding of RFC 4648 with padding; \<^verbatim>\<open>atob\<close> is the forgiving base64 decoding of the
  WHATWG Infra standard: ASCII whitespace is removed, one or two trailing \<^verbatim>\<open>=\<close> are
  removed when the length is a multiple of four, a length of one more than a multiple of
  four or a character outside the alphabet is an error, and the bits left over after
  the last whole byte are dropped. A character of the model is a code unit below 256,
  so \<^verbatim>\<open>btoa\<close>, which throws on any other code unit, is total here.
\<close>

definition b64_alphabet :: string where
  "b64_alphabet = ''ABCDEFGHIJKLMNOPQRSTUVWXYZabcdefghijklmnopqrstuvwxyz0123456789+/''"

definition b64_char :: "nat \<Rightarrow> char" where
  "b64_char i = b64_alphabet ! i"

fun index_of :: "'a list \<Rightarrow> 'a \<Rightarrow> nat option" where
  "index_of [] x = None"
| "index_of (y # ys) x = (if x = y then Some 0 else map_option Suc (index_of ys x))"

definition b64_index :: "char \<Rightarrow> nat option" where
  "b64_index c = index_of b64_alphabet c"

text \<open>Three bytes become four values of six bits; one or two bytes at the end become two or three.\<close>

fun sextets :: "nat list \<Rightarrow> nat list" where
  "sextets (a # b # c # rest) =
     [a div 4, (a mod 4) * 16 + b div 16, (b mod 16) * 4 + c div 64, c mod 64] @ sextets rest"
| "sextets [a, b] = [a div 4, (a mod 4) * 16 + b div 16, (b mod 16) * 4]"
| "sextets [a] = [a div 4, (a mod 4) * 16]"
| "sextets [] = []"

definition btoa :: "string \<Rightarrow> string" where
  "btoa s =
     (let bytes = map of_char s
      in map b64_char (sextets bytes) @ replicate ((3 - length bytes mod 3) mod 3) CHR ''='')"

text \<open>Four values of six bits become three bytes; two or three values at the end become one or two.\<close>

fun octets :: "nat list \<Rightarrow> nat list" where
  "octets (p # q # r # s # rest) =
     [p * 4 + q div 16, (q mod 16) * 16 + r div 4, (r mod 4) * 64 + s] @ octets rest"
| "octets [p, q, r] = [p * 4 + q div 16, (q mod 16) * 16 + r div 4]"
| "octets [p, q] = [p * 4 + q div 16]"
| "octets [p] = []"
| "octets [] = []"

definition ascii_whitespace :: "char \<Rightarrow> bool" where
  "ascii_whitespace c = ((of_char c :: nat) \<in> {9, 10, 12, 13, 32})"

text \<open>A string that ends with one or two \<^verbatim>\<open>=\<close> loses them.\<close>

definition remove_padding :: "string \<Rightarrow> string" where
  "remove_padding d =
     (case rev d of
        c1 # c2 # r \<Rightarrow>
          if c1 = CHR ''='' \<and> c2 = CHR ''='' then rev r
          else if c1 = CHR ''='' then rev (c2 # r)
          else d
      | [c1] \<Rightarrow> if c1 = CHR ''='' then [] else d
      | [] \<Rightarrow> d)"

definition atob :: "string \<Rightarrow> error + string" where
  "atob s =
     (let d = filter (\<lambda>c. \<not> ascii_whitespace c) s;
          d = (if length d mod 4 = 0 then remove_padding d else d)
      in if length d mod 4 = 1 then Inl InvalidCharacterError
         else if \<not> list_all (\<lambda>c. b64_index c \<noteq> None) d then Inl InvalidCharacterError
         else Inr (map char_of
                (octets (map (\<lambda>c. case b64_index c of Some i \<Rightarrow> i | None \<Rightarrow> 0) d))))"

text \<open>
  \<^verbatim>\<open>String.fromCharCode.apply(null, Array.from(uint8))\<close>, \<^verbatim>\<open>s.replace(/a/g, 'b')\<close> for
  single characters, \<^verbatim>\<open>s.replace(/=+$/, '')\<close> and \<^verbatim>\<open>s.padEnd(n, '=')\<close>.
\<close>

definition String_fromCharCode :: "byte list \<Rightarrow> string" where
  "String_fromCharCode uint8 = map (\<lambda>b. char_of (unat b)) uint8"

definition replace_all :: "char \<Rightarrow> char \<Rightarrow> string \<Rightarrow> string" where
  "replace_all a b s = map (\<lambda>c. if c = a then b else c) s"

definition strip_trailing_equals :: "string \<Rightarrow> string" where
  "strip_trailing_equals s = rev (dropWhile (\<lambda>c. c = CHR ''='') (rev s))"

definition padEnd :: "nat \<Rightarrow> char \<Rightarrow> string \<Rightarrow> string" where
  "padEnd n c s = s @ replicate (n - length s) c"

definition toBase64Url :: "byte list \<Rightarrow> string" where
  "toBase64Url uint8 =
     strip_trailing_equals
       (replace_all CHR ''/'' CHR ''_''
         (replace_all CHR ''+'' CHR ''-'' (btoa (String_fromCharCode uint8))))"

definition base64urlToArrayBuffer :: "string \<Rightarrow> error + byte list" where
  "base64urlToArrayBuffer base64url =
     (let base64 = padEnd ((length base64url + 3) div 4 * 4) CHR ''=''
                     (replace_all CHR ''_'' CHR ''/'' (replace_all CHR ''-'' CHR ''+'' base64url))
      in case atob base64 of
           Inl err \<Rightarrow> Inl err
         | Inr binary \<Rightarrow> Inr (map (\<lambda>c. of_nat (of_char c)) binary))"

section \<open>Properties\<close>

subsection \<open>Key extraction\<close>

text \<open>
  On a buffer that holds a COSE key region the decoder maps to a \<^verbatim>\<open>Map\<close>, the function
  is the dispatch on that map.
\<close>

lemma extract_reaches_dispatch:
  assumes "55 + declaredCredIdLen authDataBytes < length authDataBytes"
    and "decodeFirstSync (drop (55 + declaredCredIdLen authDataBytes) authDataBytes) = Some (DMap coseKey)"
  shows "extractRawPublicKeyFromAuthData decodeFirstSync authDataBytes = coseKeyToRawKey coseKey"
  using assms
  by (simp add: extractRawPublicKeyFromAuthData_def getUint16_def declaredCredIdLen_def Let_def)

lemma typed_set_error: "typed_set target source offset = Inl err \<Longrightarrow> err = RangeError TypedArraySet"
  by (simp add: typed_set_def Let_def split: if_splits)

text \<open>
  C1. For every decoded COSE key map with key type 2 (EC2) and algorithm -7 (ES256)
  whose fields -2 and -3 hold byte strings \<open>x\<close> and \<open>y\<close> of the coordinate width \<open>w\<close>,
  the key extractor returns the byte 0x04 followed by \<open>x\<close> and then \<open>y\<close>, which is
  \<open>1 + 2 * w\<close> bytes long.
\<close>

theorem es256_raw_key_layout:
  assumes "coseKey 1 = Some (CNum 2)" and "coseKey 3 = Some (CNum (- 7))"
    and "coseKey (- 2) = Some (CBytes x)" and "coseKey (- 3) = Some (CBytes y)"
    and "length x = w" and "length y = w"
  shows "coseKeyToRawKey coseKey = Inr (0x04 # x @ y) \<and> length (0x04 # x @ y) = 1 + 2 * w"
proof -
  have buf: "index_assign (new_Uint8Array (Some (Suc (w + w)))) 0 0x04 = 0x04 # replicate (w + w) 0"
    by (simp add: index_assign_def new_Uint8Array_def)
  have first: "typed_set (0x04 # replicate (w + w) 0) (CBytes x) (Some (Suc 0)) = Inr (0x04 # x @ replicate w 0)"
    using assms(5) by (simp add: typed_set_def replicate_add)
  have second: "typed_set (0x04 # x @ replicate w 0) (CBytes y) (Some (Suc w)) = Inr (0x04 # x @ y)"
    using assms(5,6) by (simp add: typed_set_def)
  have "coseKeyToRawKey coseKey = Inr (0x04 # x @ y)"
    using assms(1-4) by (simp add: coseKeyToRawKey_def Let_def assms(5,6) buf first second)
  then show ?thesis using assms(5,6) by simp
qed

theorem es256_raw_key_layout_witness:
  "coseKeyToRawKey [1 \<mapsto> CNum 2, 3 \<mapsto> CNum (- 7), - 2 \<mapsto> CBytes [1, 2], - 3 \<mapsto> CBytes [3, 4]]
     = Inr [0x04, 1, 2, 3, 4]"
  using es256_raw_key_layout [of "[1 \<mapsto> CNum 2, 3 \<mapsto> CNum (- 7), - 2 \<mapsto> CBytes [1, 2], - 3 \<mapsto> CBytes [3, 4]]"
      "[1, 2]" "[3, 4]" 2]
  by simp

text \<open>
  C3. For every decoded COSE key map whose pair of key type (label 1) and algorithm
  (label 3) is neither (2, -7) nor (3, -257), a map that lacks either label included,
  the key extractor fails with the unsupported-key error, which carries the key type
  and the algorithm it read; no key is produced on any other pair.
\<close>

theorem unsupported_pair_rejected:
  assumes "(coseKey 1, coseKey 3) \<noteq> (Some (CNum 2), Some (CNum (- 7)))"
    and "(coseKey 1, coseKey 3) \<noteq> (Some (CNum 3), Some (CNum (- 257)))"
  shows "coseKeyToRawKey coseKey = Inl (UnsupportedCoseKey (coseKey 1) (coseKey 3))"
  using assms by (auto simp add: coseKeyToRawKey_def Let_def)

theorem unsupported_pair_rejected_witness:
  "coseKeyToRawKey [1 \<mapsto> CNum 2, 3 \<mapsto> CNum (- 257), - 2 \<mapsto> CBytes [1], - 3 \<mapsto> CBytes [2]]
     = Inl (UnsupportedCoseKey (Some (CNum 2)) (Some (CNum (- 257))))
   \<and> coseKeyToRawKey [3 \<mapsto> CNum (- 7)] = Inl (UnsupportedCoseKey None (Some (CNum (- 7))))"
  using unsupported_pair_rejected [of "[1 \<mapsto> CNum 2, 3 \<mapsto> CNum (- 257), - 2 \<mapsto> CBytes [1], - 3 \<mapsto> CBytes [2]]"]
    unsupported_pair_rejected [of "[3 \<mapsto> CNum (- 7)]"]
  by simp

text \<open>
  C4, as the claim states it, fails: an empty byte string is an object, so \<^verbatim>\<open>!x\<close> is
  false for it and the ES256 branch emits a key; likewise the RS256 branch.
\<close>

theorem empty_coordinate_counterexample:
  "coseKeyToRawKey [1 \<mapsto> CNum 2, 3 \<mapsto> CNum (- 7), - 2 \<mapsto> CBytes [], - 3 \<mapsto> CBytes [3, 4]]
     = Inr [0x04, 3, 4]
   \<and> coseKeyToRawKey [1 \<mapsto> CNum 3, 3 \<mapsto> CNum (- 257), - 1 \<mapsto> CBytes [], - 2 \<mapsto> CBytes [1, 0, 1]]
     = Inr [1, 0, 1]"
  by (simp add: coseKeyToRawKey_def Let_def new_Uint8Array_def index_assign_def typed_set_def)

text \<open>
  C4, amended. For every COSE key map with key type 2 and algorithm -7 in which field -2
  or field -3 is absent, the key extractor fails with the malformed-ES256 error; for
  every map with key type 3 and algorithm -257 in which field -1 or field -2 is absent,
  it fails with the malformed-RS256 error. A field that holds a byte string counts as
  present whatever its length.
\<close>

theorem missing_field_rejected:
  "(coseKey 1 = Some (CNum 2) \<and> coseKey 3 = Some (CNum (- 7)) \<and>
      (coseKey (- 2) = None \<or> coseKey (- 3) = None)
      \<longrightarrow> coseKeyToRawKey coseKey = Inl MalformedES256)
   \<and> (coseKey 1 = Some (CNum 3) \<and> coseKey 3 = Some (CNum (- 257)) \<and>
      (coseKey (- 1) = None \<or> coseKey (- 2) = None)
      \<longrightarrow> coseKeyToRawKey coseKey = Inl MalformedRS256)
   \<and> (coseKey 1 = Some (CNum 2) \<and> coseKey 3 = Some (CNum (- 7)) \<and>
      coseKeyToRawKey coseKey = Inl MalformedES256
      \<longrightarrow> \<not> truthy (coseKey (- 2)) \<or> \<not> truthy (coseKey (- 3)))
   \<and> (coseKey 1 = Some (CNum 3) \<and> coseKey 3 = Some (CNum (- 257)) \<and>
      coseKeyToRawKey coseKey = Inl MalformedRS256
      \<longrightarrow> \<not> truthy (coseKey (- 1)) \<or> \<not> truthy (coseKey (- 2)))"
proof -
  have es_missing: "coseKeyToRawKey coseKey = Inl MalformedES256"
    if "coseKey 1 = Some (CNum 2)" "coseKey 3 = Some (CNum (- 7))"
      "coseKey (- 2) = None \<or> coseKey (- 3) = None"
    using that by (auto simp add: coseKeyToRawKey_def Let_def)
  have rs_missing: "coseKeyToRawKey coseKey = Inl MalformedRS256"
    if "coseKey 1 = Some (CNum 3)" "coseKey 3 = Some (CNum (- 257))"
      "coseKey (- 1) = None \<or> coseKey (- 2) = None"
    using that by (auto simp add: coseKeyToRawKey_def Let_def)
  have es_only: "\<not> truthy (coseKey (- 2)) \<or> \<not> truthy (coseKey (- 3))"
    if "coseKey 1 = Some (CNum 2)" "coseKey 3 = Some (CNum (- 7))"
      "coseKeyToRawKey coseKey = Inl MalformedES256"
  proof (rule ccontr)
    assume "\<not> (\<not> truthy (coseKey (- 2)) \<or> \<not> truthy (coseKey (- 3)))"
    with that show False
      by (auto simp add: coseKeyToRawKey_def Let_def split: sum.splits dest: typed_set_error)
  qed
  have rs_only: "\<not> truthy (coseKey (- 1)) \<or> \<not> truthy (coseKey (- 2))"
    if "coseKey 1 = Some (CNum 3)" "coseKey 3 = Some (CNum (- 257))"
      "coseKeyToRawKey coseKey = Inl MalformedRS256"
  proof (rule ccontr)
    assume "\<not> (\<not> truthy (coseKey (- 1)) \<or> \<not> truthy (coseKey (- 2)))"
    with that show False
      by (auto simp add: coseKeyToRawKey_def Let_def split: sum.splits dest: typed_set_error)
  qed
  show ?thesis
    using es_missing rs_missing es_only rs_only by blast
qed

theorem missing_field_rejected_witness:
  "coseKeyToRawKey [1 \<mapsto> CNum 2, 3 \<mapsto> CNum (- 7), - 3 \<mapsto> CBytes [3, 4]] = Inl MalformedES256
   \<and> coseKeyToRawKey [1 \<mapsto> CNum 3, 3 \<mapsto> CNum (- 257), - 1 \<mapsto> CBytes [5, 6]] = Inl MalformedRS256"
  using missing_field_rejected [of "[1 \<mapsto> CNum 2, 3 \<mapsto> CNum (- 7), - 3 \<mapsto> CBytes [3, 4]]"]
    missing_field_rejected [of "[1 \<mapsto> CNum 3, 3 \<mapsto> CNum (- 257), - 1 \<mapsto> CBytes [5, 6]]"]
  by simp

subsection \<open>Parsing the authenticator data\<close>

text \<open>
  C5. On every buffer shorter than the 55 bytes of the fixed prefix the parser fails:
  the bounds check of the 16-bit read at offset 53 raises before any byte is read, and
  the decoder is never called. On every buffer of at least 55 bytes that ends at or
  before the end of the credential id it declares, the parser fails with the
  key-not-found error.
\<close>

theorem short_authData_rejected:
  "(length authDataBytes < 55 \<longrightarrow>
      extractRawPublicKeyFromAuthData decodeFirstSync authDataBytes = Inl (RangeError DataViewOffset))
   \<and> (55 \<le> length authDataBytes \<and> length authDataBytes \<le> 55 + declaredCredIdLen authDataBytes \<longrightarrow>
      extractRawPublicKeyFromAuthData decodeFirstSync authDataBytes = Inl CoseKeyNotFound)"
  by (simp add: extractRawPublicKeyFromAuthData_def getUint16_def declaredCredIdLen_def Let_def)

theorem short_authData_rejected_witness:
  "extractRawPublicKeyFromAuthData (\<lambda>bs. Some (DMap Map.empty)) (replicate 54 0) = Inl (RangeError DataViewOffset)
   \<and> extractRawPublicKeyFromAuthData (\<lambda>bs. Some (DMap Map.empty)) (replicate 53 0 @ [0, 4, 1, 2, 3]) = Inl CoseKeyNotFound"
  using short_authData_rejected [of "replicate 54 0" "\<lambda>bs. Some (DMap Map.empty)"]
    short_authData_rejected [of "replicate 53 0 @ [0, 4, 1, 2, 3]" "\<lambda>bs. Some (DMap Map.empty)"]
  by (simp add: declaredCredIdLen_def nth_append)

subsection \<open>Subunits to base units\<close>

lemma digit_char_props:
  assumes "d < 10"
  shows "is_digit (digit_char d)" and "digit_val (digit_char d) = d"
proof -
  from assms have "d \<in> {0, 1, 2, 3, 4, 5, 6, 7, 8, 9}" by auto
  then show "is_digit (digit_char d)" and "digit_val (digit_char d) = d"
    by (auto simp add: digit_char_def is_digit_def digit_val_def)
qed

lemma is_digit_not_point: "is_digit c \<Longrightarrow> c \<noteq> CHR ''.''"
  by (auto simp add: is_digit_def)

lemma nat_of_digits_snoc: "nat_of_digits (s @ [c]) = 10 * nat_of_digits s + digit_val c"
  by (simp add: nat_of_digits_def)

lemma digits_not_empty: "digits n \<noteq> []"
  by (subst digits.simps) simp

lemma digits_all_digit: "list_all is_digit (digits n)"
proof (induction n rule: digits.induct)
  case (1 n)
  then show ?case
    by (subst digits.simps) (simp add: digit_char_props)
qed

lemma nat_of_digits_digits: "nat_of_digits (digits n) = n"
proof (induction n rule: digits.induct)
  case (1 n)
  show ?case
  proof (cases "n < 10")
    case True
    then show ?thesis
      by (subst digits.simps) (simp add: nat_of_digits_def digit_char_props)
  next
    case False
    with 1 show ?thesis
      by (subst digits.simps) (simp add: nat_of_digits_snoc digit_char_props)
  qed
qed

lemma length_digits_le: "0 < k \<Longrightarrow> n < 10 ^ k \<Longrightarrow> length (digits n) \<le> k"
proof (induction n arbitrary: k rule: digits.induct)
  case (1 n)
  show ?case
  proof (cases "n < 10")
    case True
    with 1(2) show ?thesis by (subst digits.simps) simp
  next
    case False
    with 1(2,3) have "1 < k" by (cases "k = 1") auto
    then obtain j where k: "k = Suc j" and "0 < j" by (cases k) auto
    from 1(3) k have "n div 10 < 10 ^ j"
      by (simp add: less_mult_imp_div_less mult.commute)
    with 1(1) False \<open>0 < j\<close> have "length (digits (n div 10)) \<le> j" by simp
    with False k show ?thesis by (subst digits.simps) simp
  qed
qed

lemma nat_of_digits_zeros: "nat_of_digits (replicate m CHR ''0'' @ s) = nat_of_digits s"
  by (induction m) (simp_all add: nat_of_digits_def digit_val_def)

lemma nat_of_digits_append_zeros: "nat_of_digits (s @ replicate j CHR ''0'') = nat_of_digits s * 10 ^ j"
proof (induction j)
  case 0
  then show ?case by simp
next
  case (Suc j)
  have "s @ replicate (Suc j) CHR ''0'' = (s @ replicate j CHR ''0'') @ [CHR ''0'']"
    by (simp add: replicate_append_same)
  then show ?case
    using Suc by (simp only: nat_of_digits_snoc) (simp add: digit_val_def)
qed

lemma takeWhile_eq_replicate: "takeWhile (\<lambda>c. c = a) xs = replicate (length (takeWhile (\<lambda>c. c = a) xs)) a"
  by (induction xs) auto

lemma strip_trailing_zeros_decomp:
  "s = strip_trailing_zeros s @ replicate (length s - length (strip_trailing_zeros s)) CHR ''0''"
proof -
  let ?P = "\<lambda>c. c = CHR ''0''"
  have "rev s = takeWhile ?P (rev s) @ dropWhile ?P (rev s)" by simp
  then have "s = rev (dropWhile ?P (rev s)) @ rev (takeWhile ?P (rev s))"
    by (metis rev_append rev_rev_ident)
  moreover have "rev (takeWhile ?P (rev s)) = replicate (length (takeWhile ?P (rev s))) CHR ''0''"
    by (subst takeWhile_eq_replicate) simp
  moreover have "length (takeWhile ?P (rev s)) + length (dropWhile ?P (rev s)) = length (rev s)"
    by (metis length_append takeWhile_dropWhile_id)
  then have "length (takeWhile ?P (rev s)) = length s - length (strip_trailing_zeros s)"
    by (simp add: strip_trailing_zeros_def)
  ultimately show ?thesis by (simp add: strip_trailing_zeros_def)
qed

lemma strip_trailing_zeros_last:
  "strip_trailing_zeros s \<noteq> [] \<Longrightarrow> last (strip_trailing_zeros s) \<noteq> CHR ''0''"
  using hd_dropWhile [of "\<lambda>c. c = CHR ''0''" "rev s"]
  by (simp add: strip_trailing_zeros_def last_rev)

lemma strip_trailing_zeros_subset: "set (strip_trailing_zeros s) \<subseteq> set s"
  by (auto simp add: strip_trailing_zeros_def dest: set_dropWhileD)

lemma dec_value_whole:
  assumes "w \<noteq> []" and "list_all is_digit w"
  shows "dec_value w = Some (of_nat (nat_of_digits w))"
proof -
  from assms(2) have "\<forall>c \<in> set w. c \<noteq> CHR ''.''"
    by (auto simp add: list_all_iff is_digit_not_point)
  then have split: "takeWhile (\<lambda>c. c \<noteq> CHR ''.'') w = w" "dropWhile (\<lambda>c. c \<noteq> CHR ''.'') w = []"
    by simp_all
  show ?thesis
    unfolding dec_value_def Let_def split using assms by (simp add: nat_of_digits_def)
qed

lemma dec_value_point:
  assumes "w \<noteq> []" and "list_all is_digit w" and "f \<noteq> []" and "list_all is_digit f"
  shows "dec_value (w @ ''.'' @ f) = Some (of_nat (nat_of_digits w) + of_nat (nat_of_digits f) / 10 ^ length f)"
proof -
  from assms(2) have "\<forall>c \<in> set w. c \<noteq> CHR ''.''"
    by (auto simp add: list_all_iff is_digit_not_point)
  then have split: "takeWhile (\<lambda>c. c \<noteq> CHR ''.'') (w @ ''.'' @ f) = w"
    "dropWhile (\<lambda>c. c \<noteq> CHR ''.'') (w @ ''.'' @ f) = ''.'' @ f"
    by simp_all
  show ?thesis
    unfolding dec_value_def Let_def split using assms by simp
qed

lemma bigint_nonneg:
  assumes "0 \<le> n"
  shows "bigint_div n 10000000 = n div 10000000" and "bigint_rem n 10000000 = n mod 10000000"
proof -
  show d: "bigint_div n 10000000 = n div 10000000"
    using assms by (cases "n = 0") (simp_all add: bigint_div_def)
  show "bigint_rem n 10000000 = n mod 10000000"
    by (simp add: bigint_rem_def d minus_mult_div_eq_mod)
qed

lemma fraction_string:
  assumes "r < 10000000"
  defines "p \<equiv> padStart 7 CHR ''0'' (digits r)"
  defines "f \<equiv> strip_trailing_zeros p"
  shows "length p = 7" and "list_all is_digit p" and "nat_of_digits p = r"
    and "p = f @ replicate (7 - length f) CHR ''0''"
    and "list_all is_digit f" and "f \<noteq> [] \<longrightarrow> last f \<noteq> CHR ''0''"
    and "f = [] \<longleftrightarrow> r = 0" and "r = nat_of_digits f * 10 ^ (7 - length f)"
proof -
  have len: "length (digits r) \<le> 7"
    using assms(1) by (intro length_digits_le) simp_all
  then show lp: "length p = 7"
    by (simp add: p_def padStart_def)
  have "list_all is_digit (replicate (7 - length (digits r)) CHR ''0'')"
    by (simp add: list_all_iff is_digit_def)
  then show dp: "list_all is_digit p"
    by (simp add: p_def padStart_def digits_all_digit)
  show vp: "nat_of_digits p = r"
    by (simp add: p_def padStart_def nat_of_digits_zeros nat_of_digits_digits)
  show decomp: "p = f @ replicate (7 - length f) CHR ''0''"
    using strip_trailing_zeros_decomp [of p] by (simp add: f_def lp)
  show "list_all is_digit f"
    using dp strip_trailing_zeros_subset [of p] by (auto simp add: f_def list_all_iff)
  show "f \<noteq> [] \<longrightarrow> last f \<noteq> CHR ''0''"
    by (simp add: f_def strip_trailing_zeros_last)
  show val: "r = nat_of_digits f * 10 ^ (7 - length f)"
    using vp nat_of_digits_append_zeros [of f "7 - length f"] decomp by simp
  show "f = [] \<longleftrightarrow> r = 0"
  proof
    assume "f = []"
    with val show "r = 0" by (simp add: nat_of_digits_def)
  next
    assume "r = 0"
    then have "p = replicate 7 CHR ''0''"
      by (simp add: p_def padStart_def digits.simps digit_char_def replicate_append_same numeral_eq_Suc)
    then show "f = []"
      by (simp add: f_def strip_trailing_zeros_def)
  qed
qed

lemma bigint_toString_nonneg: "0 \<le> b \<Longrightarrow> bigint_toString b = digits (nat b)"
  by (simp add: bigint_toString_def)

lemma stroopsToXlm_nonneg:
  assumes "0 \<le> n"
  shows "stroopsToXlm (BigIntArg n) =
     Inr (if n mod 10000000 = 0 then digits (nat (n div 10000000))
          else digits (nat (n div 10000000)) @ ''.'' @
               strip_trailing_zeros (padStart 7 CHR ''0'' (digits (nat (n mod 10000000)))))"
proof -
  have r: "nat (n mod 10000000) < 10000000" by simp
  have q: "0 \<le> n div 10000000" using assms by simp
  have m: "0 \<le> n mod 10000000" by simp
  have e: "strip_trailing_zeros (padStart 7 CHR ''0'' (digits (nat (n mod 10000000)))) = [] \<longleftrightarrow> n mod 10000000 = 0"
    using fraction_string(7) [OF r] m by simp
  show ?thesis
    by (simp add: stroopsToXlm_def Let_def bigint_nonneg [OF assms]
        bigint_toString_nonneg [OF q] bigint_toString_nonneg [OF m] e)
qed

lemma decimal_split:
  fixes q r :: int and f :: nat
  assumes "n = q * 10000000 + r" and "r = int v * 10 ^ (7 - k)" and "k \<le> 7"
  shows "(of_int n :: rat) / 10000000 = of_int q + of_nat v / 10 ^ k"
proof -
  have "(10000000 :: rat) = 10 ^ k * 10 ^ (7 - k)"
    using assms(3) by (simp flip: power_add)
  moreover have "(of_int n :: rat) = of_int q * 10000000 + of_nat v * 10 ^ (7 - k)"
    by (simp add: assms(1,2))
  ultimately show ?thesis
    by (simp add: field_simps)
qed

text \<open>
  C6. For every subunit count \<open>n \<ge> 0\<close> given as a \<^verbatim>\<open>bigint\<close>, \<^verbatim>\<open>stroopsToXlm\<close> returns the
  decimal digits \<open>w\<close> of the quotient of \<open>n\<close> by 10,000,000, followed, unless the remainder
  is zero, by a point and the string \<open>f\<close>; \<open>f\<close> is the seven-digit zero-padded rendering
  \<open>p\<close> of the remainder without its trailing zeros. The string denotes exactly
  \<open>n / 10,000,000\<close>. In particular 100000000 gives "10", 10000001 gives "1.0000001" and
  0 gives "0".
\<close>

theorem stroopsToXlm_exact:
  assumes "0 \<le> n"
  shows "(\<exists>w p f.
      stroopsToXlm (BigIntArg n) = Inr (if n mod 10000000 = 0 then w else w @ ''.'' @ f)
      \<and> dec_value (if n mod 10000000 = 0 then w else w @ ''.'' @ f) = Some (of_int n / 10000000)
      \<and> w = digits (nat (n div 10000000))
      \<and> length p = 7 \<and> list_all is_digit p \<and> int (nat_of_digits p) = n mod 10000000
      \<and> p = f @ replicate (7 - length f) CHR ''0''
      \<and> (f \<noteq> [] \<longrightarrow> last f \<noteq> CHR ''0'')
      \<and> (f = [] \<longleftrightarrow> n mod 10000000 = 0))
    \<and> stroopsToXlm (BigIntArg 100000000) = Inr ''10''
    \<and> stroopsToXlm (BigIntArg 10000001) = Inr ''1.0000001''
    \<and> stroopsToXlm (BigIntArg 0) = Inr ''0''"
proof -
  define w where "w = digits (nat (n div 10000000))"
  define p where "p = padStart 7 CHR ''0'' (digits (nat (n mod 10000000)))"
  define f where "f = strip_trailing_zeros p"
  define q r where "q = n div 10000000" and "r = n mod 10000000"
  have r: "nat (n mod 10000000) < 10000000" by simp
  note fs = fraction_string [OF r, folded p_def, folded f_def]
  have m: "0 \<le> r" by (simp add: r_def)
  have run: "stroopsToXlm (BigIntArg n) = Inr (if n mod 10000000 = 0 then w else w @ ''.'' @ f)"
    using stroopsToXlm_nonneg [OF assms] by (simp add: w_def p_def f_def)
  have wv: "w \<noteq> []" "list_all is_digit w" "int (nat_of_digits w) = q"
    using assms by (simp_all add: w_def q_def digits_not_empty digits_all_digit nat_of_digits_digits)
  have split: "n = q * 10000000 + r" by (simp add: q_def r_def)
  have lf: "length f \<le> 7" using fs(1,4) by (metis le_add1 length_append)
  have "int (nat (n mod 10000000)) = int (nat_of_digits f * 10 ^ (7 - length f))"
    using fs(8) by (rule arg_cong)
  then have rv: "r = int (nat_of_digits f) * 10 ^ (7 - length f)"
    by (simp add: r_def)
  have dv: "(of_int n :: rat) / 10000000 = of_int q + of_nat (nat_of_digits f) / 10 ^ length f"
    by (rule decimal_split [OF split rv lf])
  have wq: "(of_int q :: rat) = of_nat (nat_of_digits w)"
    by (simp flip: wv(3))
  have val: "dec_value (if n mod 10000000 = 0 then w else w @ ''.'' @ f) = Some (of_int n / 10000000)"
  proof (cases "n mod 10000000 = 0")
    case True
    then have "f = []" using fs(7) by simp
    then have "(of_int n :: rat) / 10000000 = of_nat (nat_of_digits w)"
      using dv wq by (simp add: nat_of_digits_def)
    moreover have "dec_value w = Some (of_nat (nat_of_digits w))"
      by (rule dec_value_whole [OF wv(1,2)])
    ultimately show ?thesis
      using True by simp
  next
    case False
    then have fne: "f \<noteq> []" using fs(7) by simp
    have "dec_value (w @ ''.'' @ f) =
        Some (of_nat (nat_of_digits w) + of_nat (nat_of_digits f) / 10 ^ length f)"
      by (rule dec_value_point [OF wv(1,2) fne fs(5)])
    also have "\<dots> = Some (of_int n / 10000000)"
      by (simp only: dv wq)
    finally show ?thesis
      using False by (simp only: if_False)
  qed
  have c1: "stroopsToXlm (BigIntArg 100000000) = Inr ''10''" by code_simp
  have c2: "stroopsToXlm (BigIntArg 10000001) = Inr ''1.0000001''" by code_simp
  have c3: "stroopsToXlm (BigIntArg 0) = Inr ''0''" by code_simp
  have pv: "int (nat_of_digits p) = n mod 10000000" using fs(3) by simp
  have ex: "\<exists>w p f.
      stroopsToXlm (BigIntArg n) = Inr (if n mod 10000000 = 0 then w else w @ ''.'' @ f)
      \<and> dec_value (if n mod 10000000 = 0 then w else w @ ''.'' @ f) = Some (of_int n / 10000000)
      \<and> w = digits (nat (n div 10000000))
      \<and> length p = 7 \<and> list_all is_digit p \<and> int (nat_of_digits p) = n mod 10000000
      \<and> p = f @ replicate (7 - length f) CHR ''0''
      \<and> (f \<noteq> [] \<longrightarrow> last f \<noteq> CHR ''0'')
      \<and> (f = [] \<longleftrightarrow> n mod 10000000 = 0)"
  proof (intro exI conjI)
    show "stroopsToXlm (BigIntArg n) = Inr (if n mod 10000000 = 0 then w else w @ ''.'' @ f)"
      by (rule run)
    show "dec_value (if n mod 10000000 = 0 then w else w @ ''.'' @ f) = Some (of_int n / 10000000)"
      by (rule val)
    show "w = digits (nat (n div 10000000))" by (rule w_def)
    show "length p = 7" by (rule fs(1))
    show "list_all is_digit p" by (rule fs(2))
    show "int (nat_of_digits p) = n mod 10000000" by (rule pv)
    show "p = f @ replicate (7 - length f) CHR ''0''" by (rule fs(4))
    show "f \<noteq> [] \<longrightarrow> last f \<noteq> CHR ''0''" by (rule fs(6))
    have "0 \<le> n mod 10000000" by simp
    with fs(7) show "f = [] \<longleftrightarrow> n mod 10000000 = 0" by (simp add: nat_eq_iff2)
  qed
  show ?thesis
    using ex c1 c2 c3 by (intro conjI)
qed

theorem stroopsToXlm_exact_witness:
  "(0 :: int) \<le> 12345000 \<and>
   (\<exists>s. stroopsToXlm (BigIntArg 12345000) = Inr s \<and> dec_value s = Some (12345000 / 10000000))"
proof -
  have h: "(0 :: int) \<le> 12345000" by simp
  from stroopsToXlm_exact [OF h] obtain s where
    "stroopsToXlm (BigIntArg 12345000) = Inr s" and "dec_value s = Some (of_int 12345000 / 10000000)"
    by blast
  with h show ?thesis by auto
qed

subsection \<open>Rounding to binary64\<close>

lemma pow2_powi: "pow2 k = 2 powi k"
  by (simp add: pow2_def power_int_def inverse_eq_divide power_one_over)

lemma pow2_pos: "0 < pow2 k"
  by (simp add: pow2_powi)

lemma pow2_less_iff: "pow2 a < pow2 b \<longleftrightarrow> a < b"
proof
  assume "pow2 a < pow2 b"
  show "a < b"
  proof (rule ccontr)
    assume "\<not> a < b"
    then have "b \<le> a" by simp
    then have "pow2 b \<le> pow2 a"
      unfolding pow2_powi by (intro power_int_increasing) simp_all
    with \<open>pow2 a < pow2 b\<close> show False by simp
  qed
next
  assume "a < b"
  then show "pow2 a < pow2 b"
    unfolding pow2_powi by (intro power_int_strict_increasing) simp_all
qed

lemma pow2_diff: "pow2 (a - b) = pow2 a / pow2 b"
  unfolding pow2_powi by (rule power_int_diff) simp

lemma bitlen_rat_bounds:
  assumes "0 < n"
  shows "pow2 (bitlen n - 1) \<le> of_int n" and "of_int n < pow2 (bitlen n)"
proof -
  have b: "1 \<le> bitlen n"
    using assms bitlen_eq_zero_iff [of n] bitlen_nonneg [of n] by linarith
  from bitlen_bounds [OF assms] have lo: "2 ^ nat (bitlen n - 1) \<le> n" and hi: "n < 2 ^ nat (bitlen n)"
    by simp_all
  have "(of_int (2 ^ nat (bitlen n - 1)) :: rat) \<le> of_int n"
    using lo by (simp only: of_int_le_iff)
  then show "pow2 (bitlen n - 1) \<le> of_int n"
    using b by (simp add: pow2_def)
  have "(of_int n :: rat) < of_int (2 ^ nat (bitlen n))"
    using hi by (simp only: of_int_less_iff)
  then show "of_int n < pow2 (bitlen n)"
    using b by (simp add: pow2_def)
qed

lemma binade_bounds:
  assumes "q \<noteq> 0"
  shows "pow2 (binade q) \<le> \<bar>q\<bar>" and "\<bar>q\<bar> < pow2 (binade q + 1)"
proof -
  obtain n d where qd: "quotient_of \<bar>q\<bar> = (n, d)" by force
  have d: "0 < d" using qd by (rule quotient_of_denom_pos)
  have a: "\<bar>q\<bar> = of_int n / of_int d" using qd by (rule quotient_of_div)
  have "0 < \<bar>q\<bar>" using assms by simp
  then have n: "0 < n" using a d by (simp add: zero_less_divide_iff)
  define k where "k = bitlen n - bitlen d"
  note bn = bitlen_rat_bounds [OF n] and bd = bitlen_rat_bounds [OF d]
  have dpos: "(0 :: rat) < of_int d" and npos: "(0 :: rat) < of_int n" using d n by simp_all
  have "\<bar>q\<bar> < pow2 (bitlen n) / pow2 (bitlen d - 1)"
    unfolding a using bn(2) bd(1) dpos npos pow2_pos [of "bitlen d - 1"]
    by (intro frac_less) simp_all
  also have "\<dots> = pow2 (k + 1)"
    by (simp add: k_def flip: pow2_diff) (simp add: algebra_simps)
  finally have up: "\<bar>q\<bar> < pow2 (k + 1)" .
  have "pow2 (bitlen n - 1) / pow2 (bitlen d) < \<bar>q\<bar>"
    unfolding a using bn(1) bd(2) dpos npos pow2_pos [of "bitlen n - 1"]
    by (intro frac_less2) simp_all
  moreover have "pow2 (bitlen n - 1) / pow2 (bitlen d) = pow2 (k - 1)"
    by (simp add: k_def flip: pow2_diff) (simp add: algebra_simps)
  ultimately have lo: "pow2 (k - 1) < \<bar>q\<bar>" by simp
  have bin: "binade q = (if pow2 k \<le> \<bar>q\<bar> then k else k - 1)"
    by (simp add: binade_def qd k_def Let_def)
  show "pow2 (binade q) \<le> \<bar>q\<bar>"
    using lo by (simp add: bin)
  show "\<bar>q\<bar> < pow2 (binade q + 1)"
    using up by (simp add: bin not_le)
qed

lemma binade_unique:
  assumes "q \<noteq> 0" and "pow2 e \<le> \<bar>q\<bar>" and "\<bar>q\<bar> < pow2 (e + 1)"
  shows "binade q = e"
proof -
  note b = binade_bounds [OF assms(1)]
  have "pow2 e < pow2 (binade q + 1)" using assms(2) b(2) by (rule le_less_trans)
  then have "e < binade q + 1" by (simp only: pow2_less_iff)
  moreover have "pow2 (binade q) < pow2 (e + 1)" using b(1) assms(3) by (rule le_less_trans)
  then have "binade q < e + 1" by (simp only: pow2_less_iff)
  ultimately show ?thesis by simp
qed

lemma fl_eval:
  assumes "q \<noteq> 0" and "pow2 e \<le> \<bar>q\<bar>" and "\<bar>q\<bar> < pow2 (e + 1)" and "- 1022 \<le> e"
  shows "fl q =
    (let ulp = pow2 (e - 52); r = of_int (round_half_even (\<bar>q\<bar> / ulp)) * ulp
     in if pow2 1024 \<le> r then (if 0 < q then PosInf else NegInf) else Fin (sgn q * r))"
  using assms(1,4) by (simp add: fl_def binade_unique [OF assms(1-3)] max_def)

lemma round_half_even_nearest:
  assumes "of_int m - 1 / 2 < q" and "q < of_int m + 1 / 2"
  shows "round_half_even q = m"
proof -
  define f where "f = \<lfloor>q\<rfloor>"
  have lo: "of_int f \<le> q" and hi: "q < of_int f + 1"
    using floor_correct [of q] by (simp_all add: f_def)
  have cases: "f = m \<or> f = m - 1"
  proof -
    have "(of_int f :: rat) < of_int m + 1 / 2" using lo assms(2) by linarith
    then have "(of_int f :: rat) < of_int (m + 1)" by simp
    then have "f < m + 1" by (simp only: of_int_less_iff)
    moreover have "(of_int m :: rat) - 1 / 2 < of_int f + 1" using hi assms(1) by linarith
    then have "(of_int (m - 1) :: rat) < of_int (f + 1)" by simp
    then have "m - 1 < f + 1" by (simp only: of_int_less_iff)
    ultimately show ?thesis by linarith
  qed
  show ?thesis
  proof (cases "f = m")
    case True
    then have "q - of_int f < 1 / 2" using assms(2) by simp
    then show ?thesis by (simp add: round_half_even_def Let_def True flip: f_def)
  next
    case False
    with cases have fm: "f = m - 1" by simp
    then have "1 / 2 < q - of_int f" using assms(1) by simp
    then show ?thesis by (simp add: round_half_even_def Let_def fm flip: f_def)
  qed
qed

lemma fl_scale: "fl 10000000 = Fin 10000000"
  by (subst fl_eval [where e = 23]) (simp_all add: pow2_def round_half_even_def Let_def)

lemma fl_tiny: "fl (1 / 10000000) = Fin (7555786372591432 / 2 ^ 76)"
proof -
  have "round_half_even (\<bar>1 / 10000000\<bar> / pow2 (- 24 - 52)) = 7555786372591432"
    by (rule round_half_even_nearest) (simp_all add: pow2_def)
  then show ?thesis
    by (subst fl_eval [where e = "- 24"]) (simp_all add: pow2_def Let_def)
qed

lemma fl_big: "fl (922337203685477 / 10000) = Fin (3022314549036571 / 2 ^ 15)"
proof -
  have "round_half_even (\<bar>922337203685477 / 10000\<bar> / pow2 (36 - 52)) = 6044629098073142"
    by (rule round_half_even_nearest) (simp_all add: pow2_def)
  then show ?thesis
    by (subst fl_eval [where e = 36]) (simp_all add: pow2_def Let_def)
qed

lemma fl_fifty: "fl 50 = Fin 50"
  by (subst fl_eval [where e = 5]) (simp_all add: pow2_def round_half_even_def Let_def)

lemma big_product: "fl (3022314549036571 / 2 ^ 15 * 10000000) = Fin 922337203685476992"
proof -
  have "round_half_even (\<bar>3022314549036571 / 2 ^ 15 * 10000000\<bar> / pow2 (59 - 52)) = 7205759403792789"
    by (rule round_half_even_nearest) (simp_all add: pow2_def)
  then show ?thesis
    by (subst fl_eval [where e = 59]) (simp_all add: pow2_def Let_def)
qed

lemma tiny_product: "fl (7555786372591432 / 2 ^ 76 * 10000000) = Fin 1"
proof -
  have "round_half_even (\<bar>7555786372591432 / 2 ^ 76 * 10000000\<bar> / pow2 (- 1 - 52)) = 9007199254740992"
    by (rule round_half_even_nearest) (simp_all add: pow2_def)
  then show ?thesis
    by (subst fl_eval [where e = "- 1"]) (simp_all add: pow2_def Let_def)
qed

subsection \<open>Base units to subunits\<close>

lemma round_half_even_nonneg: "0 \<le> q \<Longrightarrow> 0 \<le> round_half_even q"
  by (auto simp add: round_half_even_def Let_def)

lemma fl_sign:
  "q < 0 \<Longrightarrow> fl q = NegInf \<or> (\<exists>r \<le> 0. fl q = Fin r)"
  "0 \<le> q \<Longrightarrow> fl q = PosInf \<or> (\<exists>r \<ge> 0. fl q = Fin r)"
proof -
  define u where "u = pow2 (max (binade q) (- 1022) - 52)"
  define r where "r = of_int (round_half_even (\<bar>q\<bar> / u)) * u"
  have u: "0 < u" by (simp add: u_def pow2_pos)
  then have "0 \<le> \<bar>q\<bar> / u" by simp
  then have "0 \<le> round_half_even (\<bar>q\<bar> / u)" by (rule round_half_even_nonneg)
  then have r: "0 \<le> r" using u by (simp add: r_def)
  have f: "q \<noteq> 0 \<Longrightarrow> fl q = (if pow2 1024 \<le> r then (if 0 < q then PosInf else NegInf) else Fin (sgn q * r))"
    by (simp add: fl_def Let_def r_def u_def)
  show "fl q = NegInf \<or> (\<exists>r \<le> 0. fl q = Fin r)" if "q < 0"
  proof (cases "pow2 1024 \<le> r")
    case True
    with that f show ?thesis by simp
  next
    case False
    with that f have "fl q = Fin (- r)" by simp
    with r show ?thesis by simp
  qed
  show "fl q = PosInf \<or> (\<exists>r \<ge> 0. fl q = Fin r)" if "0 \<le> q"
  proof (cases "q = 0")
    case True
    then show ?thesis by (simp add: fl_def)
  next
    case nz: False
    show ?thesis
    proof (cases "pow2 1024 \<le> r")
      case True
      with that nz f show ?thesis by simp
    next
      case False
      with that nz f have "fl q = Fin r" by simp
      with r show ?thesis by simp
    qed
  qed
qed

lemma Math_round_int: "Math_round (Fin (of_int z)) = Fin (of_int z)"
proof -
  have "\<lfloor>(of_int z :: rat) + 1 / 2\<rfloor> = z"
    by (rule floor_unique) simp_all
  then show ?thesis by simp
qed

lemma xlmToStroops_Fin: "xlmToStroops (Fin q) = Math_round (fl (q * 10000000))"
  by (simp add: xlmToStroops_def fl_scale)

text \<open>
  C7, as the claim states it, fails: \<^verbatim>\<open>xlmToStroops\<close> has no check and no \<^verbatim>\<open>throw\<close>; on the
  amount 0 it returns the number 0.
\<close>

theorem xlmToStroops_zero_counterexample: "xlmToStroops (Fin 0) = Fin 0"
  using Math_round_int [of 0] by (simp add: xlmToStroops_Fin fl_def)

text \<open>
  C7, amended. \<^verbatim>\<open>xlmToStroops\<close> validates nothing and never fails. It returns
  \<^verbatim>\<open>Math.round\<close> of the double-precision product of its argument and 10,000,000:
  \<^verbatim>\<open>NaN\<close> for \<^verbatim>\<open>NaN\<close>, each infinity for itself, 0 for 0, for a negative finite
  amount an integer that is at most 0 (or minus infinity), and for a positive finite
  amount an integer that is at least 0 (or plus infinity, when the product overflows).
\<close>

theorem xlmToStroops_unchecked:
  "xlmToStroops NaN = NaN \<and> xlmToStroops PosInf = PosInf \<and> xlmToStroops NegInf = NegInf
   \<and> xlmToStroops (Fin 0) = Fin 0
   \<and> (\<forall>q. xlmToStroops (Fin q) = Math_round (fl (q * 10000000)))
   \<and> (\<forall>q < 0. xlmToStroops (Fin q) = NegInf \<or> (\<exists>z \<le> 0. xlmToStroops (Fin q) = Fin (of_int z)))
   \<and> (\<forall>q > 0. xlmToStroops (Fin q) = PosInf \<or> (\<exists>z \<ge> 0. xlmToStroops (Fin q) = Fin (of_int z)))"
proof -
  have neg: "xlmToStroops (Fin q) = NegInf \<or> (\<exists>z \<le> 0. xlmToStroops (Fin q) = Fin (of_int z))"
    if "q < 0" for q
  proof -
    from that have "q * 10000000 < 0" by (simp add: mult_less_0_iff)
    from fl_sign(1) [OF this] show ?thesis
    proof
      assume "fl (q * 10000000) = NegInf"
      then show ?thesis by (simp add: xlmToStroops_Fin)
    next
      assume "\<exists>r \<le> 0. fl (q * 10000000) = Fin r"
      then obtain r where r: "r \<le> 0" "fl (q * 10000000) = Fin r" by blast
      then have "\<lfloor>r + 1 / 2\<rfloor> \<le> 0" by (simp add: floor_le_iff)
      with r(2) show ?thesis by (auto simp add: xlmToStroops_Fin)
    qed
  qed
  have pos: "xlmToStroops (Fin q) = PosInf \<or> (\<exists>z \<ge> 0. xlmToStroops (Fin q) = Fin (of_int z))"
    if "0 < q" for q
  proof -
    from that have "0 \<le> q * 10000000" by simp
    from fl_sign(2) [OF this] show ?thesis
    proof
      assume "fl (q * 10000000) = PosInf"
      then show ?thesis by (simp add: xlmToStroops_Fin)
    next
      assume "\<exists>r \<ge> 0. fl (q * 10000000) = Fin r"
      then obtain r where r: "0 \<le> r" "fl (q * 10000000) = Fin r" by blast
      then have "0 \<le> \<lfloor>r + 1 / 2\<rfloor>" by simp
      with r(2) show ?thesis by (auto simp add: xlmToStroops_Fin)
    qed
  qed
  have special: "xlmToStroops NaN = NaN" "xlmToStroops PosInf = PosInf" "xlmToStroops NegInf = NegInf"
    by (simp_all add: xlmToStroops_def fl_scale)
  have zero: "xlmToStroops (Fin 0) = Fin 0"
    using Math_round_int [of 0] by (simp add: xlmToStroops_Fin fl_def)
  show ?thesis
    using special zero xlmToStroops_Fin neg pos by (intro conjI allI impI) simp_all
qed

lemma fl_neg_scale: "fl (- 10000000) = Fin (- 10000000)"
  by (subst fl_eval [where e = 23]) (simp_all add: pow2_def round_half_even_def Let_def)

theorem xlmToStroops_unchecked_witness:
  "(- 1 :: rat) < 0 \<and> xlmToStroops (Fin (- 1)) = Fin (- 10000000)"
proof -
  from xlmToStroops_unchecked have "xlmToStroops (Fin (- 1)) = Math_round (fl (- 1 * 10000000))"
    by blast
  then show ?thesis using Math_round_int [of "- 10000000"] by (simp add: fl_neg_scale)
qed

subsection \<open>The round trip\<close>

lemma replicate_numeral: "replicate (numeral k) x = x # replicate (pred_numeral k) x"
  by (simp add: numeral_eq_Suc)

lemma stroopsToXlm_integer: "stroopsToXlm (NumberArg (Fin (of_int z))) = stroopsToXlm (BigIntArg z)"
  by (simp add: stroopsToXlm_def)

lemma roundtrip_zero: "stroopsToXlm (NumberArg (xlmToStroops (fl 0))) = Inr ''0''"
proof -
  have "xlmToStroops (fl 0) = Fin (of_int 0)"
    using Math_round_int [of 0] by (simp add: fl_def xlmToStroops_Fin)
  moreover have "stroopsToXlm (BigIntArg 0) = Inr ''0''"
    by (simp add: stroopsToXlm_nonneg digits.simps digit_char_def)
  ultimately show ?thesis by (simp only: stroopsToXlm_integer)
qed

lemma roundtrip_tiny: "stroopsToXlm (NumberArg (xlmToStroops (fl (1 / 10000000)))) = Inr ''0.0000001''"
proof -
  have "xlmToStroops (fl (1 / 10000000)) = Math_round (Fin 1)"
    by (simp only: fl_tiny xlmToStroops_Fin tiny_product)
  then have "xlmToStroops (fl (1 / 10000000)) = Fin (of_int 1)"
    using Math_round_int [of 1] by simp
  moreover have "stroopsToXlm (BigIntArg 1) = Inr ''0.0000001''"
    by (simp add: stroopsToXlm_nonneg digits.simps digit_char_def padStart_def strip_trailing_zeros_def replicate_numeral)
  ultimately show ?thesis by (simp only: stroopsToXlm_integer)
qed

lemma fifty_product: "fl (50 * 10000000) = Fin 500000000"
  by (subst fl_eval [where e = 28]) (simp_all add: pow2_def round_half_even_def Let_def)

lemma roundtrip_fifty: "stroopsToXlm (NumberArg (xlmToStroops (fl 50))) = Inr ''50''"
proof -
  have "xlmToStroops (fl 50) = Math_round (Fin 500000000)"
    by (simp only: fl_fifty xlmToStroops_Fin fifty_product)
  then have "xlmToStroops (fl 50) = Fin (of_int 500000000)"
    using Math_round_int [of 500000000] by simp
  moreover have "stroopsToXlm (BigIntArg 500000000) = Inr ''50''"
    by (simp add: stroopsToXlm_nonneg digits.simps digit_char_def)
  ultimately show ?thesis by (simp only: stroopsToXlm_integer)
qed

lemma big_stroops: "xlmToStroops (fl (922337203685477 / 10000)) = Fin 922337203685476992"
proof -
  have "xlmToStroops (fl (922337203685477 / 10000)) = Math_round (Fin 922337203685476992)"
    by (simp only: fl_big xlmToStroops_Fin big_product)
  then show ?thesis
    using Math_round_int [of 922337203685476992] by simp
qed

lemma roundtrip_big:
  "stroopsToXlm (NumberArg (xlmToStroops (fl (922337203685477 / 10000)))) = Inr ''92233720368.5476992''"
proof -
  have "xlmToStroops (fl (922337203685477 / 10000)) = Math_round (Fin 922337203685476992)"
    by (simp only: fl_big xlmToStroops_Fin big_product)
  then have "xlmToStroops (fl (922337203685477 / 10000)) = Fin (of_int 922337203685476992)"
    using Math_round_int [of 922337203685476992] by simp
  moreover have "stroopsToXlm (BigIntArg 922337203685476992) = Inr ''92233720368.5476992''"
    by (simp add: stroopsToXlm_nonneg digits.simps digit_char_def padStart_def strip_trailing_zeros_def replicate_numeral)
  ultimately show ?thesis by (simp only: stroopsToXlm_integer)
qed

lemma dec_value_big: "dec_value ''92233720368.5476992'' = Some (922337203685477 / 10000 - 8 / 10000000)"
  by (simp add: dec_value_def Let_def is_digit_def nat_of_digits_def digit_val_def)

text \<open>
  C8, as the claim states it, fails at 92233720368.5477: the subunit count is above
  \<open>2 ^ 53\<close>, the double product is a multiple of 128, and the round trip returns
  92233720368.5476992, eight subunits below the amount.
\<close>

theorem roundtrip_boundary_counterexample:
  "stroopsToXlm (NumberArg (xlmToStroops (fl (922337203685477 / 10000)))) = Inr ''92233720368.5476992''
   \<and> dec_value ''92233720368.5476992'' = Some (922337203685477 / 10000 - 8 / 10000000)"
  using roundtrip_big dec_value_big by (rule conjI)

text \<open>
  C8, amended. For the amounts 0, 0.0000001 and 50 the round trip
  \<^verbatim>\<open>stroopsToXlm(xlmToStroops(x))\<close> returns the decimal string of the amount; for
  92233720368.5477 the subunit count computed is 922337203685476992.
\<close>

theorem roundtrip_representative:
  "stroopsToXlm (NumberArg (xlmToStroops (fl 0))) = Inr ''0''
   \<and> stroopsToXlm (NumberArg (xlmToStroops (fl (1 / 10000000)))) = Inr ''0.0000001''
   \<and> stroopsToXlm (NumberArg (xlmToStroops (fl 50))) = Inr ''50''
   \<and> xlmToStroops (fl (922337203685477 / 10000)) = Fin 922337203685476992"
  using roundtrip_zero roundtrip_tiny roundtrip_fifty big_stroops by (intro conjI)

subsection \<open>The contract identifier\<close>

text \<open>
  C2. The contract identifier is a function of the credential id, the submitter's
  public address and the network passphrase alone: two service instances that agree on
  the address and the passphrase derive the same identifier from the same credential id,
  whatever their other fields hold; the derivation takes no ledger state.
\<close>

theorem derive_deterministic:
  assumes "kp_publicKey (submitterKeypair s1) = kp_publicKey (submitterKeypair s2)"
    and "networkPassphrase s1 = networkPassphrase s2"
  shows "deriveContractIdFromPasskeyId sdk s1 credentialId =
         deriveContractIdFromPasskeyId sdk s2 credentialId"
  unfolding deriveContractIdFromPasskeyId_def assms by (rule refl)

theorem derive_deterministic_witness:
  "deriveContractIdFromPasskeyId
     \<lparr>sdk_hash = rev, sdk_Address_fromString = (\<lambda>s. Inr (ScAddress (Buffer_from s))),
      sdk_toXDR = (\<lambda>p. networkId p @ salt (contractIdPreimage p)),
      sdk_encodeContract = map (\<lambda>b. char_of (unat b))\<rparr>
     \<lparr>contractWasmHash = ''w1'', submitterSeed = ''S'', horizonUrl = ''h1'', rpcUrl = ''r1'',
      nativeContractId = ''n1'', networkPassphrase = ''Test'',
      submitterKeypair = \<lparr>kp_publicKey = ''G'', kp_secret = ''S''\<rparr>\<rparr> ''abc''
   = deriveContractIdFromPasskeyId
     \<lparr>sdk_hash = rev, sdk_Address_fromString = (\<lambda>s. Inr (ScAddress (Buffer_from s))),
      sdk_toXDR = (\<lambda>p. networkId p @ salt (contractIdPreimage p)),
      sdk_encodeContract = map (\<lambda>b. char_of (unat b))\<rparr>
     \<lparr>contractWasmHash = ''w2'', submitterSeed = ''S'', horizonUrl = ''h2'', rpcUrl = ''r2'',
      nativeContractId = ''n2'', networkPassphrase = ''Test'',
      submitterKeypair = \<lparr>kp_publicKey = ''G'', kp_secret = ''S''\<rparr>\<rparr> ''abc''"
  by (rule derive_deterministic) simp_all

subsection \<open>The transfer\<close>

text \<open>
  C9. In every run of \<^verbatim>\<open>addFunds\<close> that reaches the simulation endpoint and receives a
  response without transaction data, the run fails with the simulation error and no
  call of \<^verbatim>\<open>sendTransaction\<close> is made. The fee of the submitted transaction comes
  from the simulated data only, so there is nothing to fall back on.
\<close>

theorem failed_simulation_never_submits:
  assumes "EvSimulateTransaction tx \<in> set (snd (addFunds env this contractId amount))"
    and "simulateTransaction env tx = Inr simulationRs"
    and "transactionData simulationRs = None"
  shows "fst (addFunds env this contractId amount) = Inl SimulationFailed
    \<and> (\<forall>feeBumpTx. EvSendTransaction feeBumpTx \<notin> set (snd (addFunds env this contractId amount)))"
  using assms
  by (auto simp add: addFunds_def Let_def split: option.splits sum.splits)

lemma xlmToStroops_fifty: "xlmToStroops (Fin 50) = Fin 500000000"
proof -
  have "xlmToStroops (Fin 50) = Math_round (Fin 500000000)"
    by (simp only: xlmToStroops_Fin fifty_product)
  then show ?thesis
    using Math_round_int [of 500000000] by simp
qed

lemma BigInt_fifty: "BigInt (Fin 500000000) = Inr 500000000"
  using floor_of_int [of 500000000, where ?'a = rat] by simp

theorem failed_simulation_never_submits_witness:
  "fst (addFunds
      \<lparr>loadAccount = (\<lambda>pk. Inr \<lparr>acc_id = pk, acc_sequence = 7\<rparr>),
       sac_transfer = (\<lambda>from to amount. Inr \<lparr>ic_contract = ''CNATIVE'', ic_functionName = ''transfer'',
                         ic_args = [from, to], ic_auth = []\<rparr>),
       signAuthEntries = (\<lambda>pk op. Inr (op\<lparr>ic_auth := [pk]\<rparr>)),
       buildFeeBumpTransaction = (\<lambda>kp fee tx np. Inr \<lparr>fb_feeSource = kp_publicKey kp, fb_baseFee = fee,
                         fb_inner = tx, fb_networkPassphrase = np, fb_signatures = []\<rparr>),
       simulateTransaction = (\<lambda>tx. Inr \<lparr>transactionData = None\<rparr>),
       sendTransaction = (\<lambda>tx. Inr ''PENDING'')\<rparr>
      \<lparr>contractWasmHash = ''w'', submitterSeed = ''S'', horizonUrl = ''h'', rpcUrl = ''r'',
       nativeContractId = ''CNATIVE'', networkPassphrase = ''Test'',
       submitterKeypair = \<lparr>kp_publicKey = ''G'', kp_secret = ''S''\<rparr>\<rparr>
      (Some ''CWALLET'') (Some (Fin 50))) = Inl SimulationFailed"
proof -
  let ?env = "\<lparr>loadAccount = (\<lambda>pk. Inr \<lparr>acc_id = pk, acc_sequence = 7\<rparr>),
       sac_transfer = (\<lambda>from to amount. Inr \<lparr>ic_contract = ''CNATIVE'', ic_functionName = ''transfer'',
                         ic_args = [from, to], ic_auth = []\<rparr>),
       signAuthEntries = (\<lambda>pk op. Inr (op\<lparr>ic_auth := [pk]\<rparr>)),
       buildFeeBumpTransaction = (\<lambda>kp fee tx np. Inr \<lparr>fb_feeSource = kp_publicKey kp, fb_baseFee = fee,
                         fb_inner = tx, fb_networkPassphrase = np, fb_signatures = []\<rparr>),
       simulateTransaction = (\<lambda>tx. Inr \<lparr>transactionData = None\<rparr>),
       sendTransaction = (\<lambda>tx. Inr ''PENDING'')\<rparr>"
  let ?this = "\<lparr>contractWasmHash = ''w'', submitterSeed = ''S'', horizonUrl = ''h'', rpcUrl = ''r'',
       nativeContractId = ''CNATIVE'', networkPassphrase = ''Test'',
       submitterKeypair = \<lparr>kp_publicKey = ''G'', kp_secret = ''S''\<rparr>\<rparr>"
  let ?tx = "\<lparr>tx_source = \<lparr>acc_id = ''G'', acc_sequence = 7\<rparr>, tx_fee = ''0'',
       tx_networkPassphrase = ''Test'',
       tx_operation = \<lparr>ic_contract = ''CNATIVE'', ic_functionName = ''transfer'',
                        ic_args = [''G'', ''CWALLET''], ic_auth = [''G'']\<rparr>,
       tx_timeout = 300, tx_sorobanData = None, tx_signatures = [''G'']\<rparr>"
  have reached: "EvSimulateTransaction ?tx \<in> set (snd (addFunds ?env ?this (Some ''CWALLET'') (Some (Fin 50))))"
    by (simp add: addFunds_def Let_def xlmToStroops_fifty BigInt_fifty tx_sign_def)
  have answer: "simulateTransaction ?env ?tx = Inr \<lparr>transactionData = None\<rparr>"
    by simp
  have lacking: "transactionData \<lparr>transactionData = None\<rparr> = None"
    by simp
  from failed_simulation_never_submits [OF reached answer lacking] show ?thesis
    by (rule conjunct1)
qed

subsection \<open>The credential-id encoding\<close>

lemma index_of_nth:
  "distinct xs \<Longrightarrow> i < length xs \<Longrightarrow> index_of xs (xs ! i) = Some i"
proof (induction xs arbitrary: i)
  case Nil
  then show ?case by simp
next
  case (Cons y ys)
  show ?case
  proof (cases i)
    case 0
    then show ?thesis by simp
  next
    case (Suc j)
    with Cons.prems have "j < length ys" and "ys ! j \<noteq> y" and "distinct ys"
      by auto
    with Cons.IH [of j] Suc show ?thesis by simp
  qed
qed

lemma b64_alphabet_props: "distinct b64_alphabet" "length b64_alphabet = 64"
  by (simp_all add: b64_alphabet_def)

lemma b64_index_char: "i < 64 \<Longrightarrow> b64_index (b64_char i) = Some i"
  unfolding b64_index_def b64_char_def
  by (rule index_of_nth) (simp_all add: b64_alphabet_props)

lemma b64_char_in_alphabet: "i < 64 \<Longrightarrow> b64_char i \<in> set b64_alphabet"
  by (simp add: b64_char_def b64_alphabet_props)

lemma alphabet_plain:
  assumes "c \<in> set b64_alphabet"
  shows "c \<noteq> CHR ''=''" and "c \<noteq> CHR ''-''" and "c \<noteq> CHR ''_''" and "\<not> ascii_whitespace c"
  using assms by (auto simp add: b64_alphabet_def ascii_whitespace_def)

lemma sextets_length:
  "length (sextets bs) = 4 * (length bs div 3) + (if length bs mod 3 = 0 then 0 else length bs mod 3 + 1)"
  by (induction bs rule: sextets.induct) simp_all

lemma join_div_mod:
  fixes x y m :: nat
  assumes "y < m"
  shows "(x * m + y) div m = x" and "(x * m + y) mod m = y"
  using assms by simp_all

lemma byte_parts:
  fixes a :: nat
  assumes "a < 256"
  shows "a div 4 < 64" and "a div 16 < 16" and "a div 64 < 4"
  using assms by (simp_all add: less_mult_imp_div_less)

lemma sextet_bounds:
  fixes a b c :: nat
  assumes "b < 256" and "c < 256"
  shows "(a mod 4) * 16 + b div 16 < 64" and "(b mod 16) * 4 + c div 64 < 64"
    and "(a mod 4) * 16 < 64" and "(b mod 16) * 4 < 64"
proof -
  have "a mod 4 < 4" and "b mod 16 < 16" by simp_all
  moreover have "b div 16 < 16" and "c div 64 < 4"
    using assms by (simp_all add: byte_parts)
  ultimately show "(a mod 4) * 16 + b div 16 < 64" and "(b mod 16) * 4 + c div 64 < 64"
    and "(a mod 4) * 16 < 64" and "(b mod 16) * 4 < 64"
    by linarith+
qed

lemma sextets_bound: "\<forall>b \<in> set bs. b < 256 \<Longrightarrow> \<forall>v \<in> set (sextets bs). v < 64"
proof (induction bs rule: sextets.induct)
  case (1 a b c rest)
  then have "a < 256" "b < 256" "c < 256" by simp_all
  then have "a div 4 < 64" "(a mod 4) * 16 + b div 16 < 64" "(b mod 16) * 4 + c div 64 < 64" "c mod 64 < 64"
    by (simp_all add: byte_parts sextet_bounds)
  with 1 show ?case by simp
next
  case (2 a b)
  then have "a < 256" "b < 256" by simp_all
  then have "a div 4 < 64" "(a mod 4) * 16 + b div 16 < 64" "(b mod 16) * 4 < 64"
    by (simp_all add: byte_parts sextet_bounds)
  then show ?case by simp
next
  case (3 a)
  then have "a < 256" by simp
  then have "a div 4 < 64" "(a mod 4) * 16 < 64"
    by (simp_all add: byte_parts sextet_bounds)
  then show ?case by simp
next
  case 4
  then show ?case by simp
qed

lemma regroup:
  fixes a b c :: nat
  assumes "b < 256" and "c < 256"
  shows "a div 4 * 4 + ((a mod 4) * 16 + b div 16) div 16 = a"
    and "(((a mod 4) * 16 + b div 16) mod 16) * 16 + ((b mod 16) * 4 + c div 64) div 4 = b"
    and "(((b mod 16) * 4 + c div 64) mod 4) * 64 + c mod 64 = c"
    and "(((a mod 4) * 16 + b div 16) mod 16) * 16 + ((b mod 16) * 4) div 4 = b"
proof -
  have b16: "b div 16 < 16" and c64: "c div 64 < 4"
    using assms by (simp_all add: byte_parts)
  have q: "((a mod 4) * 16 + b div 16) div 16 = a mod 4" "((a mod 4) * 16 + b div 16) mod 16 = b div 16"
    using b16 by (rule join_div_mod)+
  have r: "((b mod 16) * 4 + c div 64) div 4 = b mod 16" "((b mod 16) * 4 + c div 64) mod 4 = c div 64"
    using c64 by (rule join_div_mod)+
  show "a div 4 * 4 + ((a mod 4) * 16 + b div 16) div 16 = a"
    by (simp only: q div_mult_mod_eq)
  show "(((a mod 4) * 16 + b div 16) mod 16) * 16 + ((b mod 16) * 4 + c div 64) div 4 = b"
    by (simp only: q r div_mult_mod_eq)
  show "(((b mod 16) * 4 + c div 64) mod 4) * 64 + c mod 64 = c"
    by (simp only: r div_mult_mod_eq)
  show "(((a mod 4) * 16 + b div 16) mod 16) * 16 + ((b mod 16) * 4) div 4 = b"
    by (simp only: q div_mult_mod_eq nonzero_mult_div_cancel_right)
qed

lemma regroup_single: "a div 4 * 4 + ((a mod 4) * 16) div 16 = (a :: nat)"
  by simp

lemma octets_sextets: "\<forall>b \<in> set bs. b < 256 \<Longrightarrow> octets (sextets bs) = bs"
proof (induction bs rule: sextets.induct)
  case (1 a b c rest)
  then have bc: "b < 256" "c < 256" and ih: "octets (sextets rest) = rest" by simp_all
  have "octets (sextets (a # b # c # rest)) =
      [a div 4 * 4 + ((a mod 4) * 16 + b div 16) div 16,
       (((a mod 4) * 16 + b div 16) mod 16) * 16 + ((b mod 16) * 4 + c div 64) div 4,
       (((b mod 16) * 4 + c div 64) mod 4) * 64 + c mod 64] @ octets (sextets rest)"
    by (simp only: sextets.simps octets.simps append_Cons append_Nil)
  then show ?case
    by (simp only: regroup(1-3) [OF bc] ih append_Cons append_Nil)
next
  case (2 a b)
  then have b: "b < 256" by simp
  have "octets (sextets [a, b]) =
      [a div 4 * 4 + ((a mod 4) * 16 + b div 16) div 16,
       (((a mod 4) * 16 + b div 16) mod 16) * 16 + ((b mod 16) * 4) div 4]"
    by (simp only: sextets.simps octets.simps)
  then show ?case
    by (simp only: regroup(1,4) [OF b b])
next
  case (3 a)
  have "octets (sextets [a]) = [a div 4 * 4 + ((a mod 4) * 16) div 16]"
    by (simp only: sextets.simps octets.simps)
  then show ?case
    by (simp only: regroup_single)
next
  case 4
  then show ?case by simp
qed

lemma dropWhile_rev_plain:
  assumes "\<forall>c \<in> set xs. c \<noteq> CHR ''=''"
  shows "dropWhile (\<lambda>c. c = CHR ''='') (rev xs) = rev xs"
proof (cases "rev xs")
  case Nil
  then show ?thesis by simp
next
  case (Cons y ys)
  then have "y \<in> set xs" by (metis list.set_intros(1) set_rev)
  with assms have "y \<noteq> CHR ''=''" by simp
  then show ?thesis by (simp add: Cons)
qed

lemma strip_trailing_equals_pad:
  assumes "\<forall>c \<in> set xs. c \<noteq> CHR ''=''"
  shows "strip_trailing_equals (xs @ replicate k CHR ''='') = xs"
proof -
  have "dropWhile (\<lambda>c. c = CHR ''='') (replicate k CHR ''='' @ rev xs) = dropWhile (\<lambda>c. c = CHR ''='') (rev xs)"
    by (rule dropWhile_append2) simp
  also have "\<dots> = rev xs"
    using assms by (rule dropWhile_rev_plain)
  finally show ?thesis
    by (simp add: strip_trailing_equals_def)
qed

lemma remove_padding_pad:
  assumes "\<forall>c \<in> set xs. c \<noteq> CHR ''=''" and "k \<le> 2"
  shows "remove_padding (xs @ replicate k CHR ''='') = xs"
proof -
  from assms(2) consider "k = 0" | "k = 1" | "k = 2" by linarith
  then show ?thesis
  proof cases
    case 1
    show ?thesis
    proof (cases "rev xs")
      case Nil
      then show ?thesis using 1 by (simp add: remove_padding_def)
    next
      case (Cons y ys)
      then have "y \<in> set xs" by (metis list.set_intros(1) set_rev)
      with assms(1) have "y \<noteq> CHR ''=''" by simp
      then show ?thesis using 1 Cons by (cases ys) (simp_all add: remove_padding_def)
    qed
  next
    case 2
    show ?thesis
    proof (cases "rev xs")
      case Nil
      then show ?thesis using 2 by (simp add: remove_padding_def)
    next
      case (Cons y ys)
      then have "y \<in> set xs" by (metis list.set_intros(1) set_rev)
      with assms(1) have "y \<noteq> CHR ''=''" by simp
      moreover have "xs = rev (y # ys)" using Cons by (metis rev_rev_ident)
      ultimately show ?thesis using 2 Cons by (simp add: remove_padding_def)
    qed
  next
    case 3
    then have "rev (xs @ replicate k CHR ''='') = CHR ''='' # CHR ''='' # rev xs"
      by (simp add: numeral_2_eq_2)
    then show ?thesis by (simp add: remove_padding_def)
  qed
qed

lemma url_roundtrip:
  assumes "\<forall>c \<in> set xs. c \<in> set b64_alphabet"
  shows "replace_all CHR ''_'' CHR ''/'' (replace_all CHR ''-'' CHR ''+''
           (replace_all CHR ''/'' CHR ''_'' (replace_all CHR ''+'' CHR ''-'' xs))) = xs"
  unfolding replace_all_def map_map
proof (rule map_idI)
  fix c
  assume "c \<in> set xs"
  with assms have "c \<in> set b64_alphabet" by simp
  then have "c \<noteq> CHR ''-''" and "c \<noteq> CHR ''_''"
    by (rule alphabet_plain)+
  then show "((\<lambda>c. if c = CHR ''_'' then CHR ''/'' else c) \<circ>
       ((\<lambda>c. if c = CHR ''-'' then CHR ''+'' else c) \<circ>
        ((\<lambda>c. if c = CHR ''/'' then CHR ''_'' else c) \<circ>
         (\<lambda>c. if c = CHR ''+'' then CHR ''-'' else c)))) c = c"
    by simp
qed

lemma url_no_equals:
  assumes "\<forall>c \<in> set xs. c \<in> set b64_alphabet"
  shows "\<forall>c \<in> set (replace_all CHR ''/'' CHR ''_'' (replace_all CHR ''+'' CHR ''-'' xs)). c \<noteq> CHR ''=''"
  using assms alphabet_plain(1) by (auto simp add: replace_all_def)

lemma url_pad:
  "replace_all CHR ''/'' CHR ''_'' (replace_all CHR ''+'' CHR ''-'' (xs @ replicate k CHR ''='')) =
   replace_all CHR ''/'' CHR ''_'' (replace_all CHR ''+'' CHR ''-'' xs) @ replicate k CHR ''=''"
  by (simp add: replace_all_def)

lemma length_replace_all: "length (replace_all a b s) = length s"
  by (simp add: replace_all_def)

lemma quarter_steps:
  fixes m :: nat
  shows "(4 * m + 3) div 4 = m" and "(4 * m + 2 + 3) div 4 = m + 1" and "(4 * m + 3 + 3) div 4 = m + 1"
    and "(4 * m + 2 + 2) mod 4 = 0" and "(4 * m + 3 + 1) mod 4 = 0"
    and "(4 * m + 2) mod 4 = 2" and "(4 * m + 3) mod 4 = 3"
  by presburger+

lemma pad_arith:
  fixes n :: nat
  defines "L \<equiv> 4 * (n div 3) + (if n mod 3 = 0 then 0 else n mod 3 + 1)"
  defines "k \<equiv> (3 - n mod 3) mod 3"
  shows "(L + 3) div 4 * 4 - L = k" and "(L + k) mod 4 = 0" and "L mod 4 \<noteq> 1" and "k \<le> 2"
proof -
  consider "n mod 3 = 0" | "n mod 3 = 1" | "n mod 3 = 2" by linarith
  then have "((L + 3) div 4 * 4 - L = k \<and> (L + k) mod 4 = 0) \<and> (L mod 4 \<noteq> 1 \<and> k \<le> 2)"
  proof cases
    case 1
    then have L: "L = 4 * (n div 3)" and k: "k = 0" by (simp_all add: L_def k_def)
    show ?thesis unfolding L k by (simp add: quarter_steps)
  next
    case 2
    then have L: "L = 4 * (n div 3) + 2" and k: "k = 2" by (simp_all add: L_def k_def)
    show ?thesis unfolding L k by (simp only: quarter_steps) simp
  next
    case 3
    then have L: "L = 4 * (n div 3) + 3" and k: "k = 1" by (simp_all add: L_def k_def)
    show ?thesis unfolding L k by (simp only: quarter_steps) simp
  qed
  then show "(L + 3) div 4 * 4 - L = k" and "(L + k) mod 4 = 0" and "L mod 4 \<noteq> 1" and "k \<le> 2"
    by simp_all
qed

lemma atob_encoded:
  assumes "\<forall>b \<in> set bs. b < 256"
  shows "atob (map b64_char (sextets bs) @ replicate ((3 - length bs mod 3) mod 3) CHR ''='') =
         Inr (map char_of bs)"
proof -
  define body where "body = map b64_char (sextets bs)"
  define k where "k = (3 - length bs mod 3) mod 3"
  have sx: "\<forall>v \<in> set (sextets bs). v < 64"
    using assms by (rule sextets_bound)
  have alpha: "\<forall>c \<in> set body. c \<in> set b64_alphabet"
    using sx by (auto simp add: body_def b64_char_in_alphabet)
  have noeq: "\<forall>c \<in> set body. c \<noteq> CHR ''=''"
    using alpha alphabet_plain(1) by blast
  have "\<forall>c \<in> set (body @ replicate k CHR ''=''). \<not> ascii_whitespace c"
    using alpha alphabet_plain(4) by (auto simp add: ascii_whitespace_def)
  then have nows: "filter (\<lambda>c. \<not> ascii_whitespace c) (body @ replicate k CHR ''='') = body @ replicate k CHR ''=''"
    by (simp only: filter_True)
  have len: "length body = 4 * (length bs div 3) + (if length bs mod 3 = 0 then 0 else length bs mod 3 + 1)"
    by (simp add: body_def sextets_length)
  have whole: "length (body @ replicate k CHR ''='') mod 4 = 0"
    using pad_arith(2) [of "length bs"] by (simp add: len k_def)
  have k2: "k \<le> 2"
    unfolding k_def by (rule pad_arith(4))
  have rp: "remove_padding (body @ replicate k CHR ''='') = body"
    using noeq k2 by (rule remove_padding_pad)
  have l1: "length body mod 4 \<noteq> 1"
    using pad_arith(3) [of "length bs"] by (simp add: len)
  have valid: "list_all (\<lambda>c. b64_index c \<noteq> None) body"
    using sx by (simp add: body_def list_all_iff b64_index_char)
  have idx: "map (\<lambda>c. case b64_index c of Some i \<Rightarrow> i | None \<Rightarrow> 0) body = sextets bs"
    unfolding body_def map_map using sx by (intro map_idI) (simp add: b64_index_char)
  have "atob (body @ replicate k CHR ''='') = Inr (map char_of (octets (sextets bs)))"
    unfolding atob_def Let_def nows using whole l1 valid by (simp add: rp idx)
  then show ?thesis
    by (simp add: body_def k_def octets_sextets [OF assms])
qed

lemma byte_char_roundtrip:
  "map (\<lambda>c. of_nat (of_char c)) (map char_of (map unat b)) = (b :: byte list)"
proof -
  have "of_nat (of_char (char_of (unat x) :: char) :: nat) = x" for x :: byte
  proof -
    have "unat x < 256" using unsigned_less [of x, where ?'a = nat] by simp
    then have "(of_char (char_of (unat x) :: char) :: nat) = unat x" by simp
    then show ?thesis by simp
  qed
  then show ?thesis
    by (simp add: comp_def map_idI)
qed

lemma fromCharCode_bytes: "map of_char (String_fromCharCode b) = map unat b"
proof -
  have "(of_char (char_of (unat x) :: char) :: nat) = unat x" for x :: byte
    using unsigned_less [of x, where ?'a = nat] by simp
  then show ?thesis
    by (simp add: String_fromCharCode_def comp_def)
qed

text \<open>
  C10. For every byte array \<open>b\<close>, \<^verbatim>\<open>base64urlToArrayBuffer(toBase64Url(b))\<close> succeeds and
  yields a buffer whose bytes are \<open>b\<close>: the padding that \<^verbatim>\<open>toBase64Url\<close> strips is put
  back by \<^verbatim>\<open>padEnd\<close> before decoding.
\<close>

theorem base64url_roundtrip: "base64urlToArrayBuffer (toBase64Url b) = Inr b"
proof -
  define bs where "bs = map unat b"
  define body where "body = map b64_char (sextets bs)"
  define k where "k = (3 - length bs mod 3) mod 3"
  define u where "u = replace_all CHR ''/'' CHR ''_'' (replace_all CHR ''+'' CHR ''-'' body)"
  have "unat x < 256" for x :: byte
    using unsigned_less [of x, where ?'a = nat] by simp
  then have lt: "\<forall>x \<in> set bs. x < 256"
    by (auto simp add: bs_def)
  have sx: "\<forall>v \<in> set (sextets bs). v < 64"
    using lt by (rule sextets_bound)
  have alpha: "\<forall>c \<in> set body. c \<in> set b64_alphabet"
    using sx by (auto simp add: body_def b64_char_in_alphabet)
  have enc: "btoa (String_fromCharCode b) = body @ replicate k CHR ''=''"
    by (simp add: btoa_def Let_def fromCharCode_bytes body_def k_def bs_def)
  have tb: "toBase64Url b = u"
    unfolding toBase64Url_def enc url_pad u_def
    using url_no_equals [OF alpha] by (rule strip_trailing_equals_pad)
  have undo: "replace_all CHR ''_'' CHR ''/'' (replace_all CHR ''-'' CHR ''+'' u) = body"
    unfolding u_def using alpha by (rule url_roundtrip)
  have len: "length u = 4 * (length bs div 3) + (if length bs mod 3 = 0 then 0 else length bs mod 3 + 1)"
    by (simp add: u_def length_replace_all body_def sextets_length)
  have lb: "length body = length u"
    by (simp add: u_def length_replace_all)
  have "(length u + 3) div 4 * 4 - length body = k"
    unfolding lb using pad_arith(1) [of "length bs"] by (simp add: len k_def)
  then have pe: "padEnd ((length u + 3) div 4 * 4) CHR ''='' body = body @ replicate k CHR ''=''"
    by (simp add: padEnd_def)
  have dec: "atob (body @ replicate k CHR ''='') = Inr (map char_of bs)"
    unfolding body_def k_def using lt by (rule atob_encoded)
  have "base64urlToArrayBuffer (toBase64Url b) =
      Inr (map (\<lambda>c. of_nat (of_char c)) (map char_of (map unat b)))"
    unfolding base64urlToArrayBuffer_def Let_def tb undo pe dec bs_def by (simp only: sum.case)
  then show ?thesis
    by (simp only: byte_char_roundtrip)
qed

end
